theory Spec2Isabelle
  imports Complex_Main
begin

section \<open>PixelLink: the message protocol engine of \<^verbatim>\<open>pixels.py\<close>\<close>

text \<open>
  A shallow embedding of class \<^verbatim>\<open>PixelLink\<close>. Python integers are \<open>int\<close>, a message is
  the list of its bytes (\<^verbatim>\<open>list(data)\<close>), times and timeouts are \<open>real\<close>. Every
  \<^verbatim>\<open>raise\<close> of the source, and every exception of the Python built-ins it calls, is a
  value of type \<open>error\<close>; a method returns its result (or the error) together with the
  session object as the call left it. Messages printed to the console are not modelled.
\<close>

subsection \<open>Enumerations\<close>

datatype DiceType = DiceType_None | DiceType_6 | DiceType_20

primrec DiceType_value :: "DiceType \<Rightarrow> int" where
  "DiceType_value DiceType_None = 0"
| "DiceType_value DiceType_6 = 1"
| "DiceType_value DiceType_20 = 2"

text \<open>The constructor call \<^verbatim>\<open>DiceType(v)\<close>: \<open>None\<close> stands for its \<^verbatim>\<open>ValueError\<close>.\<close>

definition DiceType_of :: "int \<Rightarrow> DiceType option" where
  "DiceType_of v =
     (if v = 0 then Some DiceType_None
      else if v = 1 then Some DiceType_6
      else if v = 2 then Some DiceType_20
      else None)"

datatype MessageType =
    MessageType_None | WhoAreYou | IAmADie | State | Telemetry
  | BulkSetup | BulkSetupAck | BulkData | BulkDataAck
  | TransferAnimSet | TransferAnimSetAck | TransferSettings | TransferSettingsAck
  | DebugLog | PlayAnim | PlayAnimEvent | StopAnim
  | RequestState | RequestAnimSet | RequestSettings | RequestTelemetry
  | ProgramDefaultAnimSet | ProgramDefaultAnimSetFinished | Flash | FlashFinished
  | RequestDefaultAnimSetColor | DefaultAnimSetColor | RequestBatteryLevel | BatteryLevel
  | Calibrate | CalibrateFace | NotifyUser | NotifyUserAck
  | TestHardware | SetStandardState | SetLEDAnimState | SetBattleState
  | ProgramDefaultParameters | ProgramDefaultParametersFinished

primrec MessageType_value :: "MessageType \<Rightarrow> int" where
  "MessageType_value MessageType_None = 0"
| "MessageType_value WhoAreYou = 1"
| "MessageType_value IAmADie = 2"
| "MessageType_value State = 3"
| "MessageType_value Telemetry = 4"
| "MessageType_value BulkSetup = 5"
| "MessageType_value BulkSetupAck = 6"
| "MessageType_value BulkData = 7"
| "MessageType_value BulkDataAck = 8"
| "MessageType_value TransferAnimSet = 9"
| "MessageType_value TransferAnimSetAck = 10"
| "MessageType_value TransferSettings = 11"
| "MessageType_value TransferSettingsAck = 12"
| "MessageType_value DebugLog = 13"
| "MessageType_value PlayAnim = 14"
| "MessageType_value PlayAnimEvent = 15"
| "MessageType_value StopAnim = 16"
| "MessageType_value RequestState = 17"
| "MessageType_value RequestAnimSet = 18"
| "MessageType_value RequestSettings = 19"
| "MessageType_value RequestTelemetry = 20"
| "MessageType_value ProgramDefaultAnimSet = 21"
| "MessageType_value ProgramDefaultAnimSetFinished = 22"
| "MessageType_value Flash = 23"
| "MessageType_value FlashFinished = 24"
| "MessageType_value RequestDefaultAnimSetColor = 25"
| "MessageType_value DefaultAnimSetColor = 26"
| "MessageType_value RequestBatteryLevel = 27"
| "MessageType_value BatteryLevel = 28"
| "MessageType_value Calibrate = 29"
| "MessageType_value CalibrateFace = 30"
| "MessageType_value NotifyUser = 31"
| "MessageType_value NotifyUserAck = 32"
| "MessageType_value TestHardware = 33"
| "MessageType_value SetStandardState = 34"
| "MessageType_value SetLEDAnimState = 35"
| "MessageType_value SetBattleState = 36"
| "MessageType_value ProgramDefaultParameters = 37"
| "MessageType_value ProgramDefaultParametersFinished = 38"

definition MessageType_members :: "MessageType list" where
  "MessageType_members =
     [MessageType_None, WhoAreYou, IAmADie, State, Telemetry,
      BulkSetup, BulkSetupAck, BulkData, BulkDataAck,
      TransferAnimSet, TransferAnimSetAck, TransferSettings, TransferSettingsAck,
      DebugLog, PlayAnim, PlayAnimEvent, StopAnim,
      RequestState, RequestAnimSet, RequestSettings, RequestTelemetry,
      ProgramDefaultAnimSet, ProgramDefaultAnimSetFinished, Flash, FlashFinished,
      RequestDefaultAnimSetColor, DefaultAnimSetColor, RequestBatteryLevel, BatteryLevel,
      Calibrate, CalibrateFace, NotifyUser, NotifyUserAck,
      TestHardware, SetStandardState, SetLEDAnimState, SetBattleState,
      ProgramDefaultParameters, ProgramDefaultParametersFinished]"

text \<open>The constructor call \<^verbatim>\<open>MessageType(v)\<close>: \<open>None\<close> stands for its \<^verbatim>\<open>ValueError\<close>.\<close>

definition MessageType_of :: "int \<Rightarrow> MessageType option" where
  "MessageType_of v = find (\<lambda>k. MessageType_value k = v) MessageType_members"

subsection \<open>Errors, callbacks and the session object\<close>

text \<open>
  The exceptions the modelled code can raise. The last three are the source's own
  \<^verbatim>\<open>raise Exception(...)\<close>: the service lookup, the identification check, and the
  acknowledgement timeout, whose text names the awaited kind and the timeout.
\<close>

datatype error =
    AssertionError | IndexError | ValueError | TypeError | AttributeError
  | StructError | UnicodeDecodeError
  | ServiceNotFound | TypeNotIdentified
  | AckTimeout MessageType real

type_synonym msg = "int list"

text \<open>
  A callback attached to \<^verbatim>\<open>message_received\<close>. The two closures named
  \<^verbatim>\<open>on_message\<close> carry the identity of the call that made them, which is also the
  address of the variable they assign (\<^verbatim>\<open>first_msg\<close>, \<^verbatim>\<open>ack_msg\<close>); a callback of
  the application is opaque and assumed to leave the session alone.
\<close>

datatype callback =
    WaitObserver nat
  | AckObserver nat MessageType
  | External nat

text \<open>What the session did to its collaborators, in order.\<close>

datatype action =
    Written "int list"
  | NotificationsEnabled
  | Attached callback
  | Detached callback
  | Waited real
  | Published msg
  | FaceUpChanged int
  | BatteryVoltageChanged "int list"
  | Disconnected

text \<open>
  \<^verbatim>\<open>_battery_voltage\<close> is \<^verbatim>\<open>-1\<close> or a float unpacked from four bytes, kept here as
  those bytes.
\<close>

datatype voltage = Sentinel | Reading "int list"

record PixelLink =
  dtype :: "DiceType option"
  face_up :: int
  battery_voltage :: "voltage option"
  message_received :: "callback list"
  cells :: "nat \<Rightarrow> msg option"
  tracing :: bool
  perf_counter :: "nat \<Rightarrow> real"
  clock_reads :: nat
  get_continue :: "nat \<Rightarrow> bool"
  prompts :: nat
  history :: "action list"

text \<open>
  \<open>dtype\<close>, \<open>face_up\<close> and \<open>battery_voltage\<close> are the attributes of the same name
  (\<open>None\<close>: Python's \<^verbatim>\<open>None\<close> for \<open>dtype\<close>, an attribute not assigned yet for
  \<open>battery_voltage\<close>); \<open>message_received\<close> is the callback list of that event;
  \<open>cells\<close> holds the variable of each live closure; \<open>tracing\<close> is the class attribute
  \<^verbatim>\<open>_trace\<close>. The environment is part of the object: \<open>perf_counter k\<close> is the
  \<open>k\<close>-th reading of \<^verbatim>\<open>time.perf_counter()\<close>, \<open>get_continue k\<close> the \<open>k\<close>-th answer of
  \<^verbatim>\<open>_get_continue()\<close>. \<open>history\<close> records the actions.
\<close>

type_synonym 'a outcome = "(error + 'a) \<times> PixelLink"

definition and_then :: "'a outcome \<Rightarrow> ('a \<Rightarrow> PixelLink \<Rightarrow> 'b outcome) \<Rightarrow> 'b outcome" where
  "and_then r f = (case r of (Inl e, s) \<Rightarrow> (Inl e, s) | (Inr x, s) \<Rightarrow> f x s)"

definition record_action :: "action \<Rightarrow> PixelLink \<Rightarrow> PixelLink" where
  "record_action a s = s\<lparr>history := history s @ [a]\<rparr>"

subsection \<open>Python built-ins\<close>

text \<open>\<^verbatim>\<open>bytes(xs)\<close> raises \<^verbatim>\<open>ValueError\<close> unless every element is in \<^verbatim>\<open>range(256)\<close>.\<close>

definition is_byte :: "int \<Rightarrow> bool" where
  "is_byte x = (0 \<le> x \<and> x < 256)"

definition py_bytes :: "int list \<Rightarrow> error + int list" where
  "py_bytes xs = (if list_all is_byte xs then Inr xs else Inl ValueError)"

text \<open>\<^verbatim>\<open>.decode("utf-8")\<close> accepts exactly the well-formed byte sequences of UTF-8.\<close>

definition cont_byte :: "int \<Rightarrow> bool" where
  "cont_byte b = (128 \<le> b \<and> b \<le> 191)"

fun utf8_valid :: "int list \<Rightarrow> bool" where
  "utf8_valid [] = True"
| "utf8_valid (b0 # bs) =
     (if 0 \<le> b0 \<and> b0 < 128 then utf8_valid bs
      else if 194 \<le> b0 \<and> b0 \<le> 223 then
        (case bs of b1 # r \<Rightarrow> cont_byte b1 \<and> utf8_valid r | _ \<Rightarrow> False)
      else if 224 \<le> b0 \<and> b0 \<le> 239 then
        (case bs of
           b1 # b2 # r \<Rightarrow>
             (if b0 = 224 then 160 \<le> b1 \<and> b1 \<le> 191
              else if b0 = 237 then 128 \<le> b1 \<and> b1 \<le> 159
              else cont_byte b1)
             \<and> cont_byte b2 \<and> utf8_valid r
         | _ \<Rightarrow> False)
      else if 240 \<le> b0 \<and> b0 \<le> 244 then
        (case bs of
           b1 # b2 # b3 # r \<Rightarrow>
             (if b0 = 240 then 144 \<le> b1 \<and> b1 \<le> 191
              else if b0 = 244 then 128 \<le> b1 \<and> b1 \<le> 143
              else cont_byte b1)
             \<and> cont_byte b2 \<and> cont_byte b3 \<and> utf8_valid r
         | _ \<Rightarrow> False)
      else False)"

definition decode_utf8 :: "int list \<Rightarrow> error + int list" where
  "decode_utf8 xs =
     (case py_bytes xs of
        Inl e \<Rightarrow> Inl e
      | Inr b \<Rightarrow> if utf8_valid b then Inr b else Inl UnicodeDecodeError)"

text \<open>
  \<^verbatim>\<open>struct.unpack('<f', b)\<close> needs exactly four bytes. The float is kept as its bytes,
  and \<^verbatim>\<open>!=\<close> on floats is read off them: a NaN differs from everything, the two zeros are
  equal, \<^verbatim>\<open>-1\<close> equals the float \<^verbatim>\<open>-1.0\<close>.
\<close>

definition unpack_float :: "int list \<Rightarrow> error + int list" where
  "unpack_float xs =
     (case py_bytes xs of
        Inl e \<Rightarrow> Inl e
      | Inr b \<Rightarrow> if length b = 4 then Inr b else Inl StructError)"

definition float_nan :: "int list \<Rightarrow> bool" where
  "float_nan b =
     (b ! 3 mod 128 = 127 \<and> 128 \<le> b ! 2 \<and> (b ! 2 mod 128 \<noteq> 0 \<or> b ! 1 \<noteq> 0 \<or> b ! 0 \<noteq> 0))"

definition float_zero :: "int list \<Rightarrow> bool" where
  "float_zero b = (b ! 3 mod 128 = 0 \<and> b ! 2 = 0 \<and> b ! 1 = 0 \<and> b ! 0 = 0)"

fun voltage_differs :: "voltage \<Rightarrow> int list \<Rightarrow> bool" where
  "voltage_differs Sentinel b = (b \<noteq> [0, 0, 128, 191])"
| "voltage_differs (Reading a) b =
     (float_nan a \<or> float_nan b \<or> \<not> (a = b \<or> (float_zero a \<and> float_zero b)))"

text \<open>
  A payload is a \<^verbatim>\<open>bytes\<close> object, as \<^verbatim>\<open>_upload_bulk_data\<close> declares it, or a list of
  integers, which Python lets a caller pass all the same. \<^verbatim>\<open>len\<close> counts the items of
  either, a slice \<^verbatim>\<open>xs[i:j]\<close> has the type of \<^verbatim>\<open>xs\<close>, and \<^verbatim>\<open>+\<close> with a list on the
  left raises \<^verbatim>\<open>TypeError\<close> unless the right operand is a list too.
\<close>

datatype pyseq = PyBytes "int list" | PyList "int list"

primrec items :: "pyseq \<Rightarrow> int list" where
  "items (PyBytes b) = b"
| "items (PyList l) = l"

definition py_slice :: "pyseq \<Rightarrow> nat \<Rightarrow> nat \<Rightarrow> pyseq" where
  "py_slice xs i j =
     (case xs of
        PyBytes b \<Rightarrow> PyBytes (take (j - i) (drop i b))
      | PyList l \<Rightarrow> PyList (take (j - i) (drop i l)))"

definition list_plus :: "int list \<Rightarrow> pyseq \<Rightarrow> error + int list" where
  "list_plus xs ys =
     (case ys of
        PyBytes b \<Rightarrow> Inl TypeError
      | PyList l \<Rightarrow> Inr (xs @ l))"

subsection \<open>Helpers of \<^verbatim>\<open>utils.py\<close>\<close>

text \<open>
  Modelled from the spec: \<^verbatim>\<open>integer_to_bytes\<close> of \<^verbatim>\<open>utils.py\<close> is not among the
  sources. The spec has the length and the offset "encoded as an unsigned 16-bit value
  split into two bytes", low byte first. A value that does not fit is out of contract
  there; this definition keeps its low bytes. The result is a list, as the source adds
  it to the list \<^verbatim>\<open>[size]\<close>.
\<close>

definition integer_to_bytes :: "int \<Rightarrow> nat \<Rightarrow> int list" where
  "integer_to_bytes i n = map (\<lambda>k. (i div 256 ^ k) mod 256) [0..<n]"

text \<open>
  Modelled from the spec: class \<^verbatim>\<open>Event\<close> of \<^verbatim>\<open>utils.py\<close> is not among the sources.
  The spec gives it \<^verbatim>\<open>attach(callback)\<close>, \<^verbatim>\<open>detach(callback)\<close> and \<^verbatim>\<open>notify(value)\<close>,
  which "invokes every currently attached callback synchronously, in attachment
  order". The three definitions below are these operations on the event
  \<^verbatim>\<open>message_received\<close>; the other two events only ever have callbacks of the
  application, and their \<^verbatim>\<open>notify\<close> is recorded as an action.
\<close>

definition attach :: "callback \<Rightarrow> PixelLink \<Rightarrow> PixelLink" where
  "attach cb s = record_action (Attached cb) (s\<lparr>message_received := message_received s @ [cb]\<rparr>)"

definition detach :: "callback \<Rightarrow> PixelLink \<Rightarrow> PixelLink" where
  "detach cb s = record_action (Detached cb) (s\<lparr>message_received := remove1 cb (message_received s)\<rparr>)"

text \<open>Python's truth value of a variable holding \<^verbatim>\<open>None\<close> or a list.\<close>

definition falsy :: "msg option \<Rightarrow> bool" where
  "falsy v = (case v of None \<Rightarrow> True | Some m \<Rightarrow> m = [])"

text \<open>
  The bodies of the two \<^verbatim>\<open>on_message\<close> closures: the one of \<^verbatim>\<open>wait_for_message\<close>
  assigns \<^verbatim>\<open>first_msg\<close> on every call, the one of \<^verbatim>\<open>_send_and_ack\<close> assigns
  \<^verbatim>\<open>ack_msg\<close> only while it is empty and the kind matches.
\<close>

fun invoke :: "callback \<Rightarrow> msg \<Rightarrow> PixelLink \<Rightarrow> unit outcome" where
  "invoke (WaitObserver i) m s = (Inr (), s\<lparr>cells := (cells s)(i := Some m)\<rparr>)"
| "invoke (AckObserver i ack_type) m s =
     (if falsy (cells s i) then
        (case m of
           [] \<Rightarrow> (Inl IndexError, s)
         | k # _ \<Rightarrow>
             if k = MessageType_value ack_type
             then (Inr (), s\<lparr>cells := (cells s)(i := Some m)\<rparr>)
             else (Inr (), s))
      else (Inr (), s))"
| "invoke (External n) m s = (Inr (), s)"

fun invoke_all :: "callback list \<Rightarrow> msg \<Rightarrow> PixelLink \<Rightarrow> unit outcome" where
  "invoke_all [] m s = (Inr (), s)"
| "invoke_all (cb # cbs) m s = and_then (invoke cb m s) (\<lambda>_. invoke_all cbs m)"

definition notify :: "msg \<Rightarrow> PixelLink \<Rightarrow> unit outcome" where
  "notify m s = invoke_all (message_received s) m (record_action (Published m) s)"

text \<open>
  A function object made by \<^verbatim>\<open>def\<close> is distinct from every live one: the new closure
  gets an identity above those of the attached callbacks.
\<close>

primrec closure_id :: "callback \<Rightarrow> nat" where
  "closure_id (WaitObserver i) = i"
| "closure_id (AckObserver i k) = i"
| "closure_id (External n) = 0"

definition new_closure :: "callback list \<Rightarrow> nat" where
  "new_closure cbs = Suc (fold max (map closure_id cbs) 0)"

subsection \<open>Sending and dispatch\<close>

text \<open>
  \<^verbatim>\<open>_send\<close>, for a write during which the transport library hands no notification to the
  delegate. The general case is \<open>send_delivering\<close> below.
\<close>

definition send :: "MessageType \<Rightarrow> int list \<Rightarrow> PixelLink \<Rightarrow> unit outcome" where
  "send message_type args s =
     (case py_bytes (MessageType_value message_type # args) of
        Inl e \<Rightarrow> (Inl e, s)
      | Inr data \<Rightarrow> (Inr (), record_action (Written data) s))"

definition refresh_battery_voltage :: "PixelLink \<Rightarrow> unit outcome" where
  "refresh_battery_voltage s = send RequestBatteryLevel [] s"

definition calibrate :: "PixelLink \<Rightarrow> unit outcome" where
  "calibrate s = send Calibrate [] s"

definition play :: "int \<Rightarrow> int \<Rightarrow> int \<Rightarrow> PixelLink \<Rightarrow> unit outcome" where
  "play index remap_face loop s = send PlayAnim [index, remap_face, loop] s"

definition update_state :: "int \<Rightarrow> int \<Rightarrow> PixelLink \<Rightarrow> PixelLink" where
  "update_state state face s =
     (let face = (if state = 1 then face + 1 else 0)
      in if face_up s \<noteq> face
         then record_action (FaceUpChanged face) (s\<lparr>face_up := face\<rparr>)
         else s)"

definition update_battery_voltage :: "int list \<Rightarrow> PixelLink \<Rightarrow> unit outcome" where
  "update_battery_voltage voltage s =
     (case battery_voltage s of
        None \<Rightarrow> (Inl AttributeError, s)
      | Some v \<Rightarrow>
          if voltage_differs v voltage
          then (Inr (), record_action (BatteryVoltageChanged voltage)
                          (s\<lparr>battery_voltage := Some (Reading voltage)\<rparr>))
          else (Inr (), s))"

definition notify_user :: "msg \<Rightarrow> PixelLink \<Rightarrow> bool outcome" where
  "notify_user m s =
     (case m of
        [] \<Rightarrow> (Inl IndexError, s)
      | k # _ \<Rightarrow>
          if k \<noteq> MessageType_value NotifyUser then (Inl AssertionError, s)
          else
            (case take 3 (drop 1 m) of
               [timeout, ok, cancel] \<Rightarrow>
                 (case decode_utf8 (drop 4 m) of
                    Inl e \<Rightarrow> (Inl e, s)
                  | Inr txt \<Rightarrow>
                      let can_abort = (ok \<noteq> 0 \<and> cancel \<noteq> 0);
                          pressed = get_continue s (prompts s);
                          s1 = s\<lparr>prompts := Suc (prompts s)\<rparr>;
                          ok = (if \<not> can_abort then True else pressed)
                      in and_then (send NotifyUserAck [if ok then 1 else 0] s1)
                           (\<lambda>_ s2. (Inr ok, s2)))
             | _ \<Rightarrow> (Inl ValueError, s)))"

definition process_message :: "msg \<Rightarrow> PixelLink \<Rightarrow> unit outcome" where
  "process_message m s =
     (case m of
        [] \<Rightarrow> (Inl IndexError, s)
      | k # payload \<Rightarrow>
          if tracing s \<and> MessageType_of k = None then (Inl ValueError, s)
          else
            and_then
              (if k = MessageType_value IAmADie then
                 (if dtype s = None \<or> dtype s = Some DiceType_None then
                    (case payload of
                       [] \<Rightarrow> (Inl IndexError, s)
                     | d # _ \<Rightarrow>
                         (case DiceType_of d of
                            None \<Rightarrow> (Inl ValueError, s)
                          | Some t \<Rightarrow> (Inr (), s\<lparr>dtype := Some t\<rparr>)))
                  else (Inr (), s))
               else if k = MessageType_value DebugLog then
                 (case decode_utf8 payload of
                    Inl e \<Rightarrow> (Inl e, s)
                  | Inr txt \<Rightarrow> (Inr (), s))
               else if k = MessageType_value BatteryLevel then
                 (case unpack_float payload of
                    Inl e \<Rightarrow> (Inl e, s)
                  | Inr voltage \<Rightarrow> update_battery_voltage voltage s)
               else if k = MessageType_value State then
                 (case payload of
                    [state, face] \<Rightarrow> (Inr (), update_state state face s)
                  | _ \<Rightarrow> (Inl TypeError, s))
               else if k = MessageType_value NotifyUser then
                 and_then (notify_user m s) (\<lambda>_ s'. (Inr (), s'))
               else (Inr (), s))
              (\<lambda>_. notify m))"

text \<open>
  \<^verbatim>\<open>_send\<close> in general. The delegate is installed before the first write, and the
  library's write reads the device's responses until its own is there: a notification
  that is queued at that moment (\<open>queued\<close>) is handed to the delegate, which dispatches
  it, before the write returns.
\<close>

definition send_delivering ::
  "msg option \<Rightarrow> MessageType \<Rightarrow> int list \<Rightarrow> PixelLink \<Rightarrow> unit outcome" where
  "send_delivering queued message_type args s =
     (case queued of
        None \<Rightarrow> send message_type args s
      | Some m \<Rightarrow> and_then (send message_type args s) (\<lambda>_. process_message m))"

subsection \<open>Waiting\<close>

text \<open>
  The transport is the list of what its successive \<^verbatim>\<open>waitForNotifications\<close> calls
  will bring: \<open>Some m\<close> when notification \<open>m\<close> arrives in time, is handed to the delegate
  (which calls \<^verbatim>\<open>_process_message\<close>) and the call returns \<^verbatim>\<open>True\<close>; \<open>None\<close> when the
  wait times out and returns \<^verbatim>\<open>False\<close>. Past the end of the list nothing arrives any
  more. Each call hands over at most one notification. Apart from these calls only a
  write can hand one over; \<open>send_and_ack\<close> and what is built on it describe the runs in
  which no write does, \<open>send_and_ack_delivering\<close> the others.
\<close>

type_synonym transport = "msg option list"

fun next_arrival :: "transport \<Rightarrow> msg option \<times> transport" where
  "next_arrival [] = (None, [])"
| "next_arrival (a # tr) = (a, tr)"

definition waitForNotifications :: "real \<Rightarrow> msg option \<Rightarrow> PixelLink \<Rightarrow> bool outcome" where
  "waitForNotifications timeout arrival s =
     (case arrival of
        None \<Rightarrow> (Inr False, record_action (Waited timeout) s)
      | Some m \<Rightarrow>
          and_then (process_message m (record_action (Waited timeout) s))
            (\<lambda>_ s'. (Inr True, s')))"

text \<open>
  \<^verbatim>\<open>wait_for_message\<close>, given what its one \<^verbatim>\<open>waitForNotifications\<close> call brings. The
  \<^verbatim>\<open>finally\<close> clause runs on the session as the body left it.
\<close>

definition wait_for_message ::
  "real \<Rightarrow> MessageType \<Rightarrow> msg option \<Rightarrow> PixelLink \<Rightarrow> msg option outcome" where
  "wait_for_message timeout msg_type arrival s =
     (let i = new_closure (message_received s);
          s1 = attach (WaitObserver i) (s\<lparr>cells := (cells s)(i := None)\<rparr>);
          r = and_then (waitForNotifications timeout arrival s1)
                (\<lambda>_ s2. (Inr (cells s2 i), s2))
      in (fst r, detach (WaitObserver i) (snd r)))"

subsection \<open>Request and acknowledgement\<close>

text \<open>
  The \<^verbatim>\<open>while\<close> loop of \<^verbatim>\<open>_send_and_ack\<close>; \<open>i\<close> is the cell of \<^verbatim>\<open>ack_msg\<close>. Its
  result is \<open>Some\<close> of the message of \<^verbatim>\<open>return ack_msg\<close>, or \<open>None\<close> when the loop is
  left by \<^verbatim>\<open>break\<close> or by its condition, so that the \<^verbatim>\<open>raise\<close> after it comes next.
\<close>

function ack_loop ::
  "nat \<Rightarrow> real \<Rightarrow> real \<Rightarrow> real \<Rightarrow> transport \<Rightarrow> PixelLink
     \<Rightarrow> (error + msg option) \<times> transport \<times> PixelLink" where
  "ack_loop i timeout t0 elapsed tr s =
     (if elapsed \<le> timeout then
        (case wait_for_message (timeout - elapsed) MessageType_None (fst (next_arrival tr)) s of
           (Inl e, s') \<Rightarrow> (Inl e, snd (next_arrival tr), s')
         | (Inr first_msg, s') \<Rightarrow>
             if falsy first_msg then (Inr None, snd (next_arrival tr), s')
             else if \<not> falsy (cells s' i) then (Inr (cells s' i), snd (next_arrival tr), s')
             else ack_loop i timeout t0 (perf_counter s' (clock_reads s') - t0)
                    (snd (next_arrival tr)) (s'\<lparr>clock_reads := Suc (clock_reads s')\<rparr>))
      else (Inr None, tr, s))"
  by pat_completeness auto
termination
  apply (relation "measure (\<lambda>(i, timeout, t0, elapsed, tr, s). length tr)")
   apply simp
  apply (case_tac tr)
   apply (auto simp: wait_for_message_def waitForNotifications_def and_then_def attach_def
      detach_def record_action_def falsy_def Let_def)
  done

declare ack_loop.simps [simp del]

definition send_and_ack ::
  "MessageType \<Rightarrow> int list \<Rightarrow> MessageType \<Rightarrow> real \<Rightarrow> transport \<Rightarrow> PixelLink
     \<Rightarrow> (error + msg) \<times> transport \<times> PixelLink" where
  "send_and_ack msg_type msg_data ack_type timeout tr s =
     (if \<not> 0 \<le> timeout then (Inl AssertionError, tr, s)
      else
        (case send msg_type msg_data s of
           (Inl e, s1) \<Rightarrow> (Inl e, tr, s1)
         | (Inr _, s1) \<Rightarrow>
             let i = new_closure (message_received s1);
                 on_message = AckObserver i ack_type;
                 s2 = attach on_message (s1\<lparr>cells := (cells s1)(i := None)\<rparr>);
                 t0 = perf_counter s2 (clock_reads s2);
                 s3 = s2\<lparr>clock_reads := Suc (clock_reads s2)\<rparr>
             in (case ack_loop i timeout t0 0 tr s3 of
                   (Inl e, tr', s4) \<Rightarrow> (Inl e, tr', detach on_message s4)
                 | (Inr (Some ack_msg), tr', s4) \<Rightarrow> (Inr ack_msg, tr', detach on_message s4)
                 | (Inr None, tr', s4) \<Rightarrow>
                     (Inl (AckTimeout ack_type timeout), tr', detach on_message s4))))"

text \<open>
  \<^verbatim>\<open>_send_and_ack\<close> when its write hands the notification \<open>queued\<close> to the delegate: the
  same body, with \<open>send_delivering\<close> for the call of \<^verbatim>\<open>_send\<close>.
\<close>

definition send_and_ack_delivering ::
  "msg option \<Rightarrow> MessageType \<Rightarrow> int list \<Rightarrow> MessageType \<Rightarrow> real \<Rightarrow> transport \<Rightarrow> PixelLink
     \<Rightarrow> (error + msg) \<times> transport \<times> PixelLink" where
  "send_and_ack_delivering queued msg_type msg_data ack_type timeout tr s =
     (if \<not> 0 \<le> timeout then (Inl AssertionError, tr, s)
      else
        (case send_delivering queued msg_type msg_data s of
           (Inl e, s1) \<Rightarrow> (Inl e, tr, s1)
         | (Inr _, s1) \<Rightarrow>
             let i = new_closure (message_received s1);
                 on_message = AckObserver i ack_type;
                 s2 = attach on_message (s1\<lparr>cells := (cells s1)(i := None)\<rparr>);
                 t0 = perf_counter s2 (clock_reads s2);
                 s3 = s2\<lparr>clock_reads := Suc (clock_reads s2)\<rparr>
             in (case ack_loop i timeout t0 0 tr s3 of
                   (Inl e, tr', s4) \<Rightarrow> (Inl e, tr', detach on_message s4)
                 | (Inr (Some ack_msg), tr', s4) \<Rightarrow> (Inr ack_msg, tr', detach on_message s4)
                 | (Inr None, tr', s4) \<Rightarrow>
                     (Inl (AckTimeout ack_type timeout), tr', detach on_message s4))))"

subsection \<open>Bulk transfer\<close>

definition PIXELS_MESSAGE_BULK_DATA_SIZE :: nat where
  "PIXELS_MESSAGE_BULK_DATA_SIZE = 16"

text \<open>
  The \<^verbatim>\<open>while\<close> loop of \<^verbatim>\<open>_upload_bulk_data\<close>. The argument
  \<^verbatim>\<open>header + data[offset:offset+size]\<close> is evaluated before the call it is passed to.
\<close>

function bulk_loop ::
  "pyseq \<Rightarrow> real \<Rightarrow> nat \<Rightarrow> nat \<Rightarrow> transport \<Rightarrow> PixelLink
     \<Rightarrow> (error + unit) \<times> transport \<times> PixelLink" where
  "bulk_loop data timeout remainingSize offset tr s =
     (if remainingSize > 0 then
        (let size = min remainingSize PIXELS_MESSAGE_BULK_DATA_SIZE;
             header = [int size] @ integer_to_bytes (int offset) 2
         in (case list_plus header (py_slice data offset (offset + size)) of
               Inl e \<Rightarrow> (Inl e, tr, s)
             | Inr msg_data \<Rightarrow>
                 (case send_and_ack BulkData msg_data BulkDataAck timeout tr s of
                    (Inl e, tr', s') \<Rightarrow> (Inl e, tr', s')
                  | (Inr _, tr', s') \<Rightarrow>
                      bulk_loop data timeout (remainingSize - size) (offset + size) tr' s')))
      else (Inr (), tr, s))"
  by pat_completeness auto
termination
  by (relation "measure (\<lambda>(data, timeout, remainingSize, offset, tr, s). remainingSize)")
    (auto simp: PIXELS_MESSAGE_BULK_DATA_SIZE_def)

declare bulk_loop.simps [simp del]

definition upload_bulk_data ::
  "pyseq \<Rightarrow> real \<Rightarrow> transport \<Rightarrow> PixelLink \<Rightarrow> (error + unit) \<times> transport \<times> PixelLink" where
  "upload_bulk_data data timeout tr s =
     (if length (items data) = 0 then (Inl AssertionError, tr, s)
      else if \<not> 0 \<le> timeout then (Inl AssertionError, tr, s)
      else
        (case send_and_ack BulkSetup (integer_to_bytes (int (length (items data))) 2)
                BulkSetupAck timeout tr s of
           (Inl e, tr', s') \<Rightarrow> (Inl e, tr', s')
         | (Inr _, tr', s') \<Rightarrow> bulk_loop data timeout (length (items data)) 0 tr' s'))"

subsection \<open>Construction\<close>

text \<open>
  The attributes as \<^verbatim>\<open>__init__\<close> first assigns them; \<^verbatim>\<open>_battery_voltage\<close> is assigned
  only after the identification. The three arguments are the environment.
\<close>

definition new_session :: "bool \<Rightarrow> (nat \<Rightarrow> real) \<Rightarrow> (nat \<Rightarrow> bool) \<Rightarrow> PixelLink" where
  "new_session trace_flag clock answers =
     \<lparr>dtype = None, face_up = 0, battery_voltage = None, message_received = [],
      cells = (\<lambda>_. None), tracing = trace_flag, perf_counter = clock, clock_reads = 0,
      get_continue = answers, prompts = 0, history = []\<rparr>"

text \<open>
  The body of the \<^verbatim>\<open>try\<close> block of \<^verbatim>\<open>__init__\<close>. \<open>service_found\<close> is the truth value
  of what \<^verbatim>\<open>getServiceByUUID\<close> returns; the other calls into the transport library are
  taken to succeed.
\<close>

definition identify :: "bool \<Rightarrow> transport \<Rightarrow> PixelLink \<Rightarrow> (error + unit) \<times> transport \<times> PixelLink" where
  "identify service_found tr s =
     (if \<not> service_found then (Inl ServiceNotFound, tr, s)
      else
        (case send WhoAreYou [] (record_action NotificationsEnabled s) of
           (Inl e, s1) \<Rightarrow> (Inl e, tr, s1)
         | (Inr _, s1) \<Rightarrow>
             (case wait_for_message 1 IAmADie (fst (next_arrival tr)) s1 of
                (Inl e, s2) \<Rightarrow> (Inl e, snd (next_arrival tr), s2)
              | (Inr _, s2) \<Rightarrow>
                  if dtype s2 = None \<or> dtype s2 = Some DiceType_None
                  then (Inl TypeNotIdentified, snd (next_arrival tr), s2)
                  else
                    (case refresh_battery_voltage (s2\<lparr>battery_voltage := Some Sentinel\<rparr>) of
                       (Inl e, s3) \<Rightarrow> (Inl e, snd (next_arrival tr), s3)
                     | (Inr _, s3) \<Rightarrow>
                         (case wait_for_message 1 BatteryLevel
                                 (fst (next_arrival (snd (next_arrival tr)))) s3 of
                            (Inl e, s4) \<Rightarrow>
                              (Inl e, snd (next_arrival (snd (next_arrival tr))), s4)
                          | (Inr _, s4) \<Rightarrow>
                              (Inr (), snd (next_arrival (snd (next_arrival tr))), s4))))))"

text \<open>
  \<^verbatim>\<open>__init__\<close>: the \<^verbatim>\<open>except\<close> clause disconnects the device and raises again. On
  \<open>Inr\<close> the caller gets the session; on \<open>Inl\<close> it gets the exception only.
\<close>

definition PixelLink_init ::
  "bool \<Rightarrow> bool \<Rightarrow> (nat \<Rightarrow> real) \<Rightarrow> (nat \<Rightarrow> bool) \<Rightarrow> transport
     \<Rightarrow> (error + unit) \<times> transport \<times> PixelLink" where
  "PixelLink_init service_found trace_flag clock answers tr =
     (case identify service_found tr (new_session trace_flag clock answers) of
        (Inl e, tr', s) \<Rightarrow> (Inl e, tr', record_action Disconnected s)
      | (Inr u, tr', s) \<Rightarrow> (Inr u, tr', s))"

subsection \<open>Reading the history\<close>

text \<open>The messages written to the transport, and the values \<^verbatim>\<open>face_up_changed\<close> fired with.\<close>

fun written :: "action list \<Rightarrow> int list list" where
  "written [] = []"
| "written (Written d # as) = d # written as"
| "written (a # as) = written as"

fun face_up_events :: "action list \<Rightarrow> int list" where
  "face_up_events [] = []"
| "face_up_events (FaceUpChanged v # as) = v # face_up_events as"
| "face_up_events (a # as) = face_up_events as"

definition new_actions :: "PixelLink \<Rightarrow> PixelLink \<Rightarrow> action list" where
  "new_actions s s' = drop (length (history s)) (history s')"

definition has_kind :: "MessageType \<Rightarrow> msg \<Rightarrow> bool" where
  "has_kind k m = (take 1 m = [MessageType_value k])"

definition bulk_messages :: "action list \<Rightarrow> int list list" where
  "bulk_messages as = filter (\<lambda>d. has_kind BulkSetup d \<or> has_kind BulkData d) (written as)"

text \<open>
  The actions a wait can add: dispatch may answer a \<^verbatim>\<open>NotifyUser\<close>, fire events and
  publish, and \<^verbatim>\<open>wait_for_message\<close> attaches and detaches its own observer.
\<close>

fun wait_action :: "action \<Rightarrow> bool" where
  "wait_action (Written d) = (d = [32, 0] \<or> d = [32, 1])"
| "wait_action (Attached (WaitObserver i)) = True"
| "wait_action (Detached (WaitObserver i)) = True"
| "wait_action (Waited t) = True"
| "wait_action (Published m) = True"
| "wait_action (FaceUpChanged v) = True"
| "wait_action (BatteryVoltageChanged v) = True"
| "wait_action a = False"

text \<open>
  The payload shapes the handlers of \<^verbatim>\<open>_process_message\<close> take for granted: a known
  kind; a valid device type after \<^verbatim>\<open>IAmADie\<close>; UTF-8 text after \<^verbatim>\<open>DebugLog\<close>; four
  bytes after \<^verbatim>\<open>BatteryLevel\<close>; two after \<^verbatim>\<open>State\<close>; three bytes and UTF-8 text after
  \<^verbatim>\<open>NotifyUser\<close>.
\<close>

definition well_formed :: "msg \<Rightarrow> bool" where
  "well_formed m =
     (case m of
        [] \<Rightarrow> False
      | k # payload \<Rightarrow>
          (if MessageType_of k = None then False
           else if k = MessageType_value IAmADie then
             (case payload of [] \<Rightarrow> False | d # _ \<Rightarrow> (if DiceType_of d = None then False else True))
           else if k = MessageType_value DebugLog then list_all is_byte payload \<and> utf8_valid payload
           else if k = MessageType_value BatteryLevel then list_all is_byte payload \<and> length payload = 4
           else if k = MessageType_value State then length payload = 2
           else if k = MessageType_value NotifyUser then
             3 \<le> length payload \<and> list_all is_byte (drop 3 payload) \<and> utf8_valid (drop 3 payload)
           else True))"

definition arrival_ok :: "msg option \<Rightarrow> bool" where
  "arrival_ok a = (case a of None \<Rightarrow> True | Some m \<Rightarrow> well_formed m)"

definition brings :: "MessageType \<Rightarrow> msg option \<Rightarrow> bool" where
  "brings k a = (case a of None \<Rightarrow> False | Some m \<Rightarrow> has_kind k m)"

text \<open>
  What a call took from the transport: the entries of the script \<open>tr\<close> it was given that
  are no longer in the script \<open>tr'\<close> it left.
\<close>

definition handed_over :: "transport \<Rightarrow> transport \<Rightarrow> transport" where
  "handed_over tr tr' = take (length tr - length tr') tr"

text \<open>What the spec expects a bulk transfer of a payload with the items \<open>data\<close> to send.\<close>

definition spec_setup_message :: "int list \<Rightarrow> int list" where
  "spec_setup_message data =
     [MessageType_value BulkSetup, int (length data) mod 256, int (length data) div 256]"

definition spec_chunk_message :: "int list \<Rightarrow> nat \<Rightarrow> int list" where
  "spec_chunk_message data offset =
     (let chunkSize = min (length data - offset) 16
      in [MessageType_value BulkData, int chunkSize, int offset mod 256, int offset div 256]
           @ take chunkSize (drop offset data))"

definition spec_bulk_messages :: "int list \<Rightarrow> int list list" where
  "spec_bulk_messages data =
     spec_setup_message data
       # map (\<lambda>n. spec_chunk_message data (16 * n)) [0..<(length data + 15) div 16]"

text \<open>Sessions and environments for the examples.\<close>

definition steady_clock :: "nat \<Rightarrow> real" where
  "steady_clock n = real n / 4"

definition enter_pressed :: "nat \<Rightarrow> bool" where
  "enter_pressed n = True"

definition other_key_pressed :: "nat \<Rightarrow> bool" where
  "other_key_pressed n = False"

definition ready_session :: PixelLink where
  "ready_session =
     (new_session False steady_clock other_key_pressed)
       \<lparr>dtype := Some DiceType_20, battery_voltage := Some Sentinel\<rparr>"

definition forty_bytes :: pyseq where
  "forty_bytes = PyBytes (map int [0..<40])"

definition forty_integers :: pyseq where
  "forty_integers = PyList (map int [0..<40])"

subsection \<open>Vocabulary of the proofs\<close>

text \<open>
  What stays as it was across a wait: the callback list, the environment, and a battery
  voltage once assigned; the history grows by actions of a wait only.
\<close>

definition keeps :: "PixelLink \<Rightarrow> PixelLink \<Rightarrow> bool" where
  "keeps s s' =
     (message_received s' = message_received s \<and> tracing s' = tracing s
      \<and> perf_counter s' = perf_counter s \<and> get_continue s' = get_continue s
      \<and> (\<exists>ext. history s' = history s @ ext \<and> list_all wait_action ext)
      \<and> (battery_voltage s' = None \<longrightarrow> battery_voltage s = None))"

text \<open>
  The \<^verbatim>\<open>if\<close>/\<^verbatim>\<open>elif\<close> chain of \<^verbatim>\<open>_process_message\<close> on its own, so that the handlers
  and the final \<^verbatim>\<open>notify\<close> can be reasoned about one after the other.
\<close>

definition kind_handlers :: "int \<Rightarrow> int list \<Rightarrow> PixelLink \<Rightarrow> unit outcome" where
  "kind_handlers k payload s =
     (if k = MessageType_value IAmADie then
        (if dtype s = None \<or> dtype s = Some DiceType_None then
           (case payload of
              [] \<Rightarrow> (Inl IndexError, s)
            | d # _ \<Rightarrow>
                (case DiceType_of d of
                   None \<Rightarrow> (Inl ValueError, s)
                 | Some t \<Rightarrow> (Inr (), s\<lparr>dtype := Some t\<rparr>)))
         else (Inr (), s))
      else if k = MessageType_value DebugLog then
        (case decode_utf8 payload of
           Inl e \<Rightarrow> (Inl e, s)
         | Inr txt \<Rightarrow> (Inr (), s))
      else if k = MessageType_value BatteryLevel then
        (case unpack_float payload of
           Inl e \<Rightarrow> (Inl e, s)
         | Inr voltage \<Rightarrow> update_battery_voltage voltage s)
      else if k = MessageType_value State then
        (case payload of
           [state, face] \<Rightarrow> (Inr (), update_state state face s)
         | _ \<Rightarrow> (Inl TypeError, s))
      else if k = MessageType_value NotifyUser then
        and_then (notify_user (k # payload) s) (\<lambda>_ s'. (Inr (), s'))
      else (Inr (), s))"


text \<open>
  The observer \<^verbatim>\<open>_send_and_ack\<close> makes when called on \<open>s\<close>, and the session as its loop
  finds it: the request written, the observer attached with \<^verbatim>\<open>ack_msg\<close> empty, the
  clock read once.
\<close>

definition ack_observer :: "MessageType \<Rightarrow> PixelLink \<Rightarrow> callback" where
  "ack_observer ack_type s = AckObserver (new_closure (message_received s)) ack_type"

definition armed :: "MessageType \<Rightarrow> int list \<Rightarrow> MessageType \<Rightarrow> PixelLink \<Rightarrow> PixelLink" where
  "armed msg_type msg_data ack_type s =
     (attach (ack_observer ack_type s)
        ((record_action (Written (MessageType_value msg_type # msg_data)) s)
           \<lparr>cells := (cells s)(new_closure (message_received s) := None)\<rparr>))
       \<lparr>clock_reads := Suc (clock_reads s)\<rparr>"

section \<open>Properties\<close>

subsection \<open>Dispatch\<close>

lemma MessageType_value_byte: "is_byte (MessageType_value k)"
  by (cases k) (simp_all add: is_byte_def)

lemma written_append: "written (xs @ ys) = written xs @ written ys"
  by (induction xs rule: written.induct) simp_all

lemma face_up_events_append: "face_up_events (xs @ ys) = face_up_events xs @ face_up_events ys"
  by (induction xs rule: face_up_events.induct) simp_all

lemma keeps_refl: "keeps s s"
  by (simp add: keeps_def)

lemma keeps_trans: "keeps s s1 \<Longrightarrow> keeps s1 s2 \<Longrightarrow> keeps s s2"
  by (auto simp: keeps_def)

lemma keeps_cells: "keeps s (s\<lparr>cells := c\<rparr>)"
  by (simp add: keeps_def)

lemma keeps_record: "wait_action a \<Longrightarrow> keeps s (record_action a s)"
  by (simp add: keeps_def record_action_def)

lemma invoke_cells: "m \<noteq> [] \<Longrightarrow> \<exists>c. invoke cb m s = (Inr (), s\<lparr>cells := c\<rparr>)"
  by (cases cb) (auto split: list.splits intro: exI [of _ "cells s"])

lemma invoke_all_cells: "m \<noteq> [] \<Longrightarrow> \<exists>c. invoke_all cbs m s = (Inr (), s\<lparr>cells := c\<rparr>)"
proof (induction cbs arbitrary: s)
  case Nil
  show ?case by (auto intro: exI [of _ "cells s"])
next
  case (Cons cb cbs)
  from invoke_cells [OF Cons.prems] obtain c where c: "invoke cb m s = (Inr (), s\<lparr>cells := c\<rparr>)"
    by blast
  from Cons.IH [OF Cons.prems, of "s\<lparr>cells := c\<rparr>"] show ?case
    by (auto simp: c and_then_def)
qed

lemma notify_cells:
  "m \<noteq> [] \<Longrightarrow> \<exists>c. notify m s = (Inr (), (record_action (Published m) s)\<lparr>cells := c\<rparr>)"
  using invoke_all_cells [of m "message_received s" "record_action (Published m) s"]
  by (simp add: notify_def record_action_def)

lemma send_result:
  "send k args s =
     (if list_all is_byte args then (Inr (), record_action (Written (MessageType_value k # args)) s)
      else (Inl ValueError, s))"
  using MessageType_value_byte [of k] by (simp add: send_def py_bytes_def)

lemma update_state_keeps:
  "keeps s (update_state state face s) \<and> cells (update_state state face s) = cells s"
  by (simp add: update_state_def Let_def keeps_def record_action_def)

lemma update_battery_voltage_keeps:
  "update_battery_voltage v s = (r, s') \<Longrightarrow> keeps s s' \<and> cells s' = cells s"
  by (auto simp: update_battery_voltage_def keeps_def record_action_def
      split: option.splits if_splits)

lemma notify_user_keeps:
  "notify_user m s = (r, s') \<Longrightarrow> keeps s s' \<and> cells s' = cells s"
  by (auto simp: notify_user_def send_result and_then_def keeps_def record_action_def Let_def
      split: list.splits sum.splits if_splits)

lemma process_message_handlers:
  "process_message (k # payload) s =
     (if tracing s \<and> MessageType_of k = None then (Inl ValueError, s)
      else and_then (kind_handlers k payload s) (\<lambda>_. notify (k # payload)))"
  by (simp add: process_message_def kind_handlers_def)

lemma kind_handlers_keeps:
  assumes "kind_handlers k payload s = (r, s')"
  shows "keeps s s' \<and> cells s' = cells s"
proof -
  have dt: "keeps s (s\<lparr>dtype := t\<rparr>)" for t
    by (simp add: keeps_def)
  show ?thesis
    using assms notify_user_keeps [of "k # payload" s] update_battery_voltage_keeps [of _ s]
      update_state_keeps [of s]
    by (auto simp: kind_handlers_def and_then_def keeps_refl dt
        split: if_splits list.splits sum.splits option.splits prod.splits)
qed

lemma process_message_keeps:
  assumes "process_message m s = (r, s')"
  shows "keeps s s'"
proof (cases m)
  case Nil
  with assms show ?thesis by (simp add: process_message_def keeps_refl)
next
  case (Cons k payload)
  obtain r1 s1 where h: "kind_handlers k payload s = (r1, s1)"
    by (cases "kind_handlers k payload s")
  note k1 = kind_handlers_keeps [OF h]
  obtain c where n: "notify m s1 = (Inr (), (record_action (Published m) s1)\<lparr>cells := c\<rparr>)"
    using notify_cells [of m s1] Cons by auto
  have k2: "keeps s1 ((record_action (Published m) s1)\<lparr>cells := c\<rparr>)"
    by (simp add: keeps_def record_action_def)
  show ?thesis
    using assms k1 k2 keeps_trans [OF conjunct1 [OF k1] k2] n
    by (cases r1) (auto simp: Cons process_message_handlers h and_then_def keeps_refl
        split: if_splits)
qed

lemma process_message_Inr:
  assumes "process_message m s = (Inr (), s')"
  shows "\<exists>s1. m \<noteq> [] \<and> keeps s s1 \<and> cells s1 = cells s
            \<and> invoke_all (message_received s) m (record_action (Published m) s1) = (Inr (), s')"
proof (cases m)
  case Nil
  with assms show ?thesis by (simp add: process_message_def)
next
  case (Cons k payload)
  obtain r1 s1 where h: "kind_handlers k payload s = (r1, s1)"
    by (cases "kind_handlers k payload s")
  note k1 = kind_handlers_keeps [OF h]
  from k1 have mr: "message_received s1 = message_received s"
    by (simp add: keeps_def)
  show ?thesis
    using assms k1 mr
    by (cases r1) (auto simp: Cons process_message_handlers h and_then_def notify_def
        split: if_splits intro!: exI [of _ s1])
qed

lemma invoke_cell:
  assumes "m \<noteq> []"
  shows "cells (snd (invoke cb m s)) x =
     (if cb = WaitObserver x
         \<or> (falsy (cells s x) \<and> (\<exists>k. cb = AckObserver x k \<and> hd m = MessageType_value k))
      then Some m else cells s x)"
  using assms by (cases cb; cases m) (auto simp: falsy_def)

lemma invoke_all_cell:
  assumes "m \<noteq> []"
  shows "cells (snd (invoke_all cbs m s)) x =
     (if WaitObserver x \<in> set cbs
         \<or> (falsy (cells s x) \<and> (\<exists>k. AckObserver x k \<in> set cbs \<and> hd m = MessageType_value k))
      then Some m else cells s x)"
proof (induction cbs arbitrary: s)
  case Nil
  show ?case by simp
next
  case (Cons cb cbs)
  obtain c where c: "invoke cb m s = (Inr (), s\<lparr>cells := c\<rparr>)"
    using invoke_cells [OF assms] by blast
  define hit where "hit \<longleftrightarrow> cb = WaitObserver x
         \<or> (falsy (cells s x) \<and> (\<exists>k. cb = AckObserver x k \<and> hd m = MessageType_value k))"
  define later where "later f \<longleftrightarrow> WaitObserver x \<in> set cbs
         \<or> (falsy f \<and> (\<exists>k. AckObserver x k \<in> set cbs \<and> hd m = MessageType_value k))" for f
  define anywhere where "anywhere \<longleftrightarrow> WaitObserver x \<in> set (cb # cbs)
         \<or> (falsy (cells s x)
             \<and> (\<exists>k. AckObserver x k \<in> set (cb # cbs) \<and> hd m = MessageType_value k))"
  have cx: "c x = (if hit then Some m else cells s x)"
    using invoke_cell [OF assms, of cb s x] by (simp add: c hit_def)
  have step: "cells (snd (invoke_all (cb # cbs) m s)) x = (if later (c x) then Some m else c x)"
  proof -
    have e: "snd (invoke_all (cb # cbs) m s) = snd (invoke_all cbs m (s\<lparr>cells := c\<rparr>))"
      by (simp add: c and_then_def)
    have cc: "cells (s\<lparr>cells := c\<rparr>) = c"
      by simp
    show ?thesis
      unfolding e later_def using Cons.IH [of "s\<lparr>cells := c\<rparr>"] unfolding cc .
  qed
  have goal: "cells (snd (invoke_all (cb # cbs) m s)) x = (if anywhere then Some m else cells s x)"
  proof (cases hit)
    case True
    then have "anywhere"
      unfolding hit_def anywhere_def by auto
    with True step cx show ?thesis
      by (simp split: if_splits)
  next
    case False
    then have "anywhere \<longleftrightarrow> later (cells s x)"
      unfolding hit_def anywhere_def later_def by auto
    with False step cx show ?thesis
      by simp
  qed
  then show ?case
    unfolding anywhere_def .
qed

lemma fold_max_ge: "(a::nat) \<le> fold max xs a"
  by (induction xs arbitrary: a) (auto intro: order_trans [OF max.cobounded2])

lemma fold_max_mem: "x \<in> set xs \<Longrightarrow> (x::nat) \<le> fold max xs a"
proof (induction xs arbitrary: a)
  case Nil
  then show ?case by simp
next
  case (Cons y ys)
  show ?case
  proof (cases "x = y")
    case True
    have "y \<le> max y a" by simp
    also have "\<dots> \<le> fold max ys (max y a)" by (rule fold_max_ge)
    finally show ?thesis using True by simp
  next
    case False
    with Cons show ?thesis by simp
  qed
qed

lemma new_closure_fresh: "cb \<in> set cbs \<Longrightarrow> closure_id cb < new_closure cbs"
  using fold_max_mem [of "closure_id cb" "map closure_id cbs" 0]
  by (simp add: new_closure_def less_Suc_eq_le)

lemma new_closure_not_attached:
  "WaitObserver (new_closure cbs) \<notin> set cbs" "AckObserver (new_closure cbs) k \<notin> set cbs"
  using new_closure_fresh [of "WaitObserver (new_closure cbs)" cbs]
    new_closure_fresh [of "AckObserver (new_closure cbs) k" cbs]
  by auto

lemma remove1_fresh: "x \<notin> set xs \<Longrightarrow> remove1 x (xs @ [x]) = xs"
  by (simp add: remove1_append)

lemma notify_user_result:
  assumes "list_all is_byte txt" "utf8_valid txt"
  shows "notify_user (MessageType_value NotifyUser # t # ok # cancel # txt) s =
     (Inr (ok = 0 \<or> cancel = 0 \<or> get_continue s (prompts s)),
      record_action
        (Written [MessageType_value NotifyUserAck,
                  if ok = 0 \<or> cancel = 0 \<or> get_continue s (prompts s) then 1 else 0])
        (s\<lparr>prompts := Suc (prompts s)\<rparr>))"
  using assms
  by (simp add: notify_user_def decode_utf8_def py_bytes_def send_result and_then_def Let_def
      is_byte_def)

lemma length_ge_3:
  assumes "3 \<le> length xs"
  obtains a b c r where "xs = a # b # c # r"
proof -
  from assms obtain a xs1 where 1: "xs = a # xs1" by (cases xs) auto
  with assms obtain b xs2 where 2: "xs1 = b # xs2" by (cases xs1) auto
  with 1 assms obtain c r where 3: "xs2 = c # r" by (cases xs2) auto
  from 1 2 3 that show thesis by simp
qed

lemma well_formed_handled:
  assumes "well_formed (k # payload)" "battery_voltage s \<noteq> None"
  shows "fst (kind_handlers k payload s) = Inr ()"
proof -
  consider (c1) "k = MessageType_value IAmADie" | (c2) "k = MessageType_value DebugLog"
    | (c3) "k = MessageType_value BatteryLevel" | (c4) "k = MessageType_value State"
    | (c5) "k = MessageType_value NotifyUser"
    | (c6) "k \<noteq> MessageType_value IAmADie \<and> k \<noteq> MessageType_value DebugLog
        \<and> k \<noteq> MessageType_value BatteryLevel \<and> k \<noteq> MessageType_value State
        \<and> k \<noteq> MessageType_value NotifyUser"
    by blast
  then show ?thesis
  proof cases
    case c1
    with assms(1) show ?thesis
      by (auto simp: well_formed_def kind_handlers_def split: if_splits list.splits option.splits)
  next
    case c2
    with assms(1) show ?thesis
      by (auto simp: well_formed_def kind_handlers_def decode_utf8_def py_bytes_def
          split: if_splits)
  next
    case c3
    with assms show ?thesis
      by (auto simp: well_formed_def kind_handlers_def unpack_float_def py_bytes_def
          update_battery_voltage_def split: if_splits option.splits)
  next
    case c4
    with assms(1) show ?thesis
      by (auto simp: well_formed_def kind_handlers_def split: if_splits list.splits)
  next
    case c5
    with assms(1) have len: "3 \<le> length payload" and tx: "list_all is_byte (drop 3 payload)"
      "utf8_valid (drop 3 payload)"
      by (auto simp: well_formed_def split: if_splits)
    from len obtain t ok cancel body where p: "payload = t # ok # cancel # body"
      by (rule length_ge_3)
    show ?thesis
      using tx notify_user_result [of body t ok cancel s]
      by (simp add: kind_handlers_def c5 p and_then_def)
  next
    case c6
    then show ?thesis by (simp add: kind_handlers_def)
  qed
qed

lemma well_formed_dispatched:
  assumes "well_formed m" "battery_voltage s \<noteq> None"
  shows "fst (process_message m s) = Inr ()"
proof (cases m)
  case Nil
  with assms show ?thesis by (simp add: well_formed_def)
next
  case (Cons k payload)
  have k: "MessageType_of k \<noteq> None"
    using assms Cons by (auto simp: well_formed_def split: if_splits)
  obtain r1 s1 where h: "kind_handlers k payload s = (r1, s1)"
    by (cases "kind_handlers k payload s")
  have r1: "r1 = Inr ()"
    using well_formed_handled [of k payload s] assms Cons h by simp
  obtain c where n: "notify m s1 = (Inr (), (record_action (Published m) s1)\<lparr>cells := c\<rparr>)"
    using notify_cells [of m s1] Cons by auto
  show ?thesis
    using k n by (simp add: Cons process_message_handlers h r1 and_then_def)
qed

subsection \<open>Waiting for one notification\<close>

lemma wait_for_message_None:
  "wait_for_message t kk None s =
     (Inr None,
      detach (WaitObserver (new_closure (message_received s)))
        (record_action (Waited t)
          (attach (WaitObserver (new_closure (message_received s)))
            (s\<lparr>cells := (cells s)(new_closure (message_received s) := None)\<rparr>))))"
  by (simp add: wait_for_message_def waitForNotifications_def and_then_def Let_def
      attach_def detach_def record_action_def)

lemma wait_for_message_Some:
  "wait_for_message t kk (Some m) s =
     (let j = new_closure (message_received s);
          r = process_message m
                (record_action (Waited t)
                  (attach (WaitObserver j) (s\<lparr>cells := (cells s)(j := None)\<rparr>)))
      in (case fst r of Inl e \<Rightarrow> Inl e | Inr _ \<Rightarrow> Inr (cells (snd r) j),
          detach (WaitObserver j) (snd r)))"
  by (simp add: wait_for_message_def waitForNotifications_def and_then_def Let_def
      split: prod.splits sum.splits)

lemma record_action_fields:
  "history (record_action a s) = history s @ [a]"
  "message_received (record_action a s) = message_received s"
  "cells (record_action a s) = cells s"
  "tracing (record_action a s) = tracing s"
  "perf_counter (record_action a s) = perf_counter s"
  "get_continue (record_action a s) = get_continue s"
  "clock_reads (record_action a s) = clock_reads s"
  "battery_voltage (record_action a s) = battery_voltage s"
  "dtype (record_action a s) = dtype s"
  "face_up (record_action a s) = face_up s"
  by (simp_all add: record_action_def)

lemma attach_fields:
  "history (attach cb s) = history s @ [Attached cb]"
  "message_received (attach cb s) = message_received s @ [cb]"
  "cells (attach cb s) = cells s"
  "tracing (attach cb s) = tracing s"
  "perf_counter (attach cb s) = perf_counter s"
  "get_continue (attach cb s) = get_continue s"
  "clock_reads (attach cb s) = clock_reads s"
  "battery_voltage (attach cb s) = battery_voltage s"
  "dtype (attach cb s) = dtype s"
  "face_up (attach cb s) = face_up s"
  by (simp_all add: attach_def record_action_def)

lemma detach_fields:
  "history (detach cb s) = history s @ [Detached cb]"
  "message_received (detach cb s) = remove1 cb (message_received s)"
  "cells (detach cb s) = cells s"
  "tracing (detach cb s) = tracing s"
  "perf_counter (detach cb s) = perf_counter s"
  "get_continue (detach cb s) = get_continue s"
  "clock_reads (detach cb s) = clock_reads s"
  "battery_voltage (detach cb s) = battery_voltage s"
  "dtype (detach cb s) = dtype s"
  "face_up (detach cb s) = face_up s"
  by (simp_all add: detach_def record_action_def)

lemma keepsD:
  assumes "keeps s s'"
  shows "message_received s' = message_received s" "tracing s' = tracing s"
    "perf_counter s' = perf_counter s" "get_continue s' = get_continue s"
    "\<exists>ext. history s' = history s @ ext \<and> list_all wait_action ext"
    "battery_voltage s' = None \<longrightarrow> battery_voltage s = None"
  using assms unfolding keeps_def by simp_all

lemma keepsI:
  assumes "message_received s' = message_received s" "tracing s' = tracing s"
    "perf_counter s' = perf_counter s" "get_continue s' = get_continue s"
    "history s' = history s @ ext" "list_all wait_action ext"
    "battery_voltage s' = None \<longrightarrow> battery_voltage s = None"
  shows "keeps s s'"
  unfolding keeps_def using assms by blast

lemma detach_attach_keeps:
  assumes "keeps (record_action (Waited t) (attach (WaitObserver j) (s\<lparr>cells := c\<rparr>))) s2"
    and "j = new_closure (message_received s)"
  shows "keeps s (detach (WaitObserver j) s2)"
proof -
  let ?sW = "record_action (Waited t) (attach (WaitObserver j) (s\<lparr>cells := c\<rparr>))"
  note k = keepsD [OF assms(1)]
  from k(5) obtain ext where h: "history s2 = history ?sW @ ext" and wa: "list_all wait_action ext"
    by blast
  have fresh: "WaitObserver j \<notin> set (message_received s)"
    using assms(2) new_closure_not_attached(1) by simp
  show ?thesis
  proof (rule keepsI)
    show "message_received (detach (WaitObserver j) s2) = message_received s"
      using fresh
      by (simp add: k(1) detach_fields record_action_fields attach_fields remove1_append)
    show "tracing (detach (WaitObserver j) s2) = tracing s"
      by (simp add: k(2) detach_fields record_action_fields attach_fields)
    show "perf_counter (detach (WaitObserver j) s2) = perf_counter s"
      by (simp add: k(3) detach_fields record_action_fields attach_fields)
    show "get_continue (detach (WaitObserver j) s2) = get_continue s"
      by (simp add: k(4) detach_fields record_action_fields attach_fields)
    show "history (detach (WaitObserver j) s2) =
      history s @ ([Attached (WaitObserver j), Waited t] @ ext @ [Detached (WaitObserver j)])"
      by (simp add: h detach_fields record_action_fields attach_fields)
    show "list_all wait_action ([Attached (WaitObserver j), Waited t] @ ext @ [Detached (WaitObserver j)])"
      using wa by simp
    show "battery_voltage (detach (WaitObserver j) s2) = None \<longrightarrow> battery_voltage s = None"
      using k(6) by (simp add: detach_fields record_action_fields attach_fields)
  qed
qed

lemma wait_for_message_keeps:
  assumes "wait_for_message t kk a s = (r, s')"
  shows "keeps s s'"
proof (cases a)
  case None
  have "keeps s (detach (WaitObserver (new_closure (message_received s)))
      (record_action (Waited t) (attach (WaitObserver (new_closure (message_received s)))
            (s\<lparr>cells := (cells s)(new_closure (message_received s) := None)\<rparr>))))"
    by (rule detach_attach_keeps [OF keeps_refl refl])
  with assms None show ?thesis
    by (simp add: wait_for_message_None)
next
  case (Some m)
  define j where "j = new_closure (message_received s)"
  define sW where "sW = record_action (Waited t)
      (attach (WaitObserver j) (s\<lparr>cells := (cells s)(j := None)\<rparr>))"
  have k: "keeps sW (snd (process_message m sW))"
    by (rule process_message_keeps [of m sW "fst (process_message m sW)"]) simp
  have "keeps s (detach (WaitObserver j) (snd (process_message m sW)))"
    using detach_attach_keeps [OF k [unfolded sW_def] j_def] by (simp add: sW_def)
  with assms Some show ?thesis
    by (simp add: wait_for_message_Some Let_def j_def sW_def)
qed

lemma wait_for_message_delivers:
  assumes "wait_for_message t kk (Some m) s = (Inr fm, s')"
  shows "fm = Some m \<and> m \<noteq> []
     \<and> (\<forall>x. x \<noteq> new_closure (message_received s) \<longrightarrow>
          cells s' x =
            (if WaitObserver x \<in> set (message_received s)
                \<or> (falsy (cells s x)
                    \<and> (\<exists>k. AckObserver x k \<in> set (message_received s)
                          \<and> hd m = MessageType_value k))
             then Some m else cells s x))"
proof -
  define j where "j = new_closure (message_received s)"
  define sW where "sW = record_action (Waited t)
      (attach (WaitObserver j) (s\<lparr>cells := (cells s)(j := None)\<rparr>))"
  obtain r2 s2 where p: "process_message m sW = (r2, s2)"
    by (cases "process_message m sW")
  from assms have r2: "r2 = Inr ()" and fm: "fm = cells s2 j" and s': "s' = detach (WaitObserver j) s2"
    by (auto simp: wait_for_message_Some Let_def j_def [symmetric] sW_def [symmetric] p
        split: sum.splits)
  from process_message_Inr [OF p [unfolded r2]] obtain s1 where
    ne: "m \<noteq> []" and c1: "cells s1 = cells sW" and
    inv: "invoke_all (message_received sW) m (record_action (Published m) s1) = (Inr (), s2)"
    by blast
  have mrW: "message_received sW = message_received s @ [WaitObserver j]"
    by (simp add: sW_def attach_def record_action_def)
  have cW: "cells sW = (cells s)(j := None)"
    by (simp add: sW_def attach_def record_action_def)
  have cells2: "cells s2 x =
     (if WaitObserver x \<in> set (message_received sW)
         \<or> (falsy (cells sW x)
             \<and> (\<exists>k. AckObserver x k \<in> set (message_received sW) \<and> hd m = MessageType_value k))
      then Some m else cells sW x)" for x
  proof -
    have cr: "cells (record_action (Published m) s1) = cells sW"
      by (simp add: record_action_def c1)
    have s2: "snd (invoke_all (message_received sW) m (record_action (Published m) s1)) = s2"
      by (simp add: inv)
    show ?thesis
      using invoke_all_cell [OF ne, of "message_received sW" "record_action (Published m) s1" x]
      unfolding s2 cr .
  qed
  have wj: "WaitObserver j \<in> set (message_received sW)"
    by (simp add: mrW)
  have a: "fm = Some m"
    using cells2 [of j] wj by (simp only: fm if_True simp_thms)
  have cs': "cells s' = cells s2"
    by (simp add: s' detach_def record_action_def)
  have b: "cells s' x =
            (if WaitObserver x \<in> set (message_received s)
                \<or> (falsy (cells s x)
                    \<and> (\<exists>k. AckObserver x k \<in> set (message_received s)
                          \<and> hd m = MessageType_value k))
             then Some m else cells s x)" if "x \<noteq> j" for x
  proof -
    have 1: "cells sW x = cells s x"
      using that by (simp add: cW)
    have 2: "WaitObserver x \<in> set (message_received sW) \<longleftrightarrow> WaitObserver x \<in> set (message_received s)"
      using that by (auto simp: mrW)
    have 3: "AckObserver x k \<in> set (message_received sW) \<longleftrightarrow> AckObserver x k \<in> set (message_received s)" for k
      by (auto simp: mrW)
    show ?thesis
      using cells2 [of x] unfolding cs' 1 2 3 .
  qed
  from a b ne show ?thesis
    unfolding j_def by blast
qed

lemma wait_for_message_well_formed:
  assumes "well_formed m" "battery_voltage s \<noteq> None"
  shows "\<exists>s'. wait_for_message t kk (Some m) s = (Inr (Some m), s')"
proof -
  define j where "j = new_closure (message_received s)"
  define sW where "sW = record_action (Waited t)
      (attach (WaitObserver j) (s\<lparr>cells := (cells s)(j := None)\<rparr>))"
  have "battery_voltage sW \<noteq> None"
    using assms(2) by (simp add: sW_def attach_def record_action_def)
  from well_formed_dispatched [OF assms(1) this]
  obtain fm s' where w: "wait_for_message t kk (Some m) s = (Inr fm, s')"
    by (cases "process_message m sW")
      (auto simp: wait_for_message_Some Let_def j_def [symmetric] sW_def [symmetric])
  from wait_for_message_delivers [OF w] w show ?thesis
    by simp
qed

lemma state_dispatch:
  "\<exists>c. process_message [MessageType_value State, state, face] s =
     (Inr (), (record_action (Published [MessageType_value State, state, face])
                 (update_state state face s))\<lparr>cells := c\<rparr>)"
  using notify_cells [of "[MessageType_value State, state, face]" "update_state state face s"]
  by (simp add: process_message_def and_then_def MessageType_of_def MessageType_members_def)

lemma new_actions_append: "history s' = history s @ ext \<Longrightarrow> new_actions s s' = ext"
  by (simp add: new_actions_def)

subsection \<open>The acknowledgement loop\<close>

lemma keeps_clock: "keeps s (s\<lparr>clock_reads := n\<rparr>)"
  by (simp add: keeps_def)

lemma ack_loop_cases:
  assumes "ack_loop i timeout t0 elapsed tr s = (r, tr', s')"
  obtains
    (expired) "\<not> elapsed \<le> timeout" "r = Inr None" "tr' = tr" "s' = s"
  | (failed) e where "elapsed \<le> timeout"
      "wait_for_message (timeout - elapsed) MessageType_None (fst (next_arrival tr)) s = (Inl e, s')"
      "r = Inl e" "tr' = snd (next_arrival tr)"
  | (silent) fm where "elapsed \<le> timeout"
      "wait_for_message (timeout - elapsed) MessageType_None (fst (next_arrival tr)) s = (Inr fm, s')"
      "falsy fm" "r = Inr None" "tr' = snd (next_arrival tr)"
  | (acked) fm where "elapsed \<le> timeout"
      "wait_for_message (timeout - elapsed) MessageType_None (fst (next_arrival tr)) s = (Inr fm, s')"
      "\<not> falsy fm" "\<not> falsy (cells s' i)" "r = Inr (cells s' i)" "tr' = snd (next_arrival tr)"
  | (again) fm s1 where "elapsed \<le> timeout"
      "wait_for_message (timeout - elapsed) MessageType_None (fst (next_arrival tr)) s = (Inr fm, s1)"
      "\<not> falsy fm" "falsy (cells s1 i)"
      "ack_loop i timeout t0 (perf_counter s1 (clock_reads s1) - t0) (snd (next_arrival tr))
         (s1\<lparr>clock_reads := Suc (clock_reads s1)\<rparr>) = (r, tr', s')"
proof -
  obtain r1 s1 where w: "wait_for_message (timeout - elapsed) MessageType_None
      (fst (next_arrival tr)) s = (r1, s1)"
    by (cases "wait_for_message (timeout - elapsed) MessageType_None (fst (next_arrival tr)) s")
  define again_loop where "again_loop =
     ack_loop i timeout t0 (perf_counter s1 (clock_reads s1) - t0) (snd (next_arrival tr))
         (s1\<lparr>clock_reads := Suc (clock_reads s1)\<rparr>)"
  have unfolded: "(r, tr', s') =
     (if elapsed \<le> timeout then
        (case r1 of
           Inl e \<Rightarrow> (Inl e, snd (next_arrival tr), s1)
         | Inr first_msg \<Rightarrow>
             if falsy first_msg then (Inr None, snd (next_arrival tr), s1)
             else if \<not> falsy (cells s1 i) then (Inr (cells s1 i), snd (next_arrival tr), s1)
             else again_loop)
      else (Inr None, tr, s))"
    unfolding again_loop_def assms [symmetric]
    by (subst ack_loop.simps) (simp add: w)
  show thesis
  proof (cases "elapsed \<le> timeout")
    case False
    with unfolded expired show ?thesis
      by simp
  next
    case True
    show ?thesis
    proof (cases r1)
      case (Inl e)
      with unfolded True w failed [of e] show ?thesis
        by simp
    next
      case (Inr fm)
      show ?thesis
      proof (cases "falsy fm")
        case fa: True
        with unfolded \<open>elapsed \<le> timeout\<close> w Inr silent [of fm] show ?thesis
          by simp
      next
        case fa: False
        show ?thesis
        proof (cases "falsy (cells s1 i)")
          case False
          with unfolded \<open>elapsed \<le> timeout\<close> w Inr fa acked [of fm] show ?thesis
            by simp
        next
          case True
          with unfolded \<open>elapsed \<le> timeout\<close> w Inr fa again [of fm s1] show ?thesis
            by (simp add: again_loop_def)
        qed
      qed
    qed
  qed
qed

lemma wait_truthy_arrival:
  assumes "wait_for_message t kk (fst (next_arrival tr)) s = (Inr fm, s1)" "\<not> falsy fm"
  obtains m rest where "tr = Some m # rest" "fm = Some m" "m \<noteq> []"
proof (cases tr)
  case Nil
  with assms show ?thesis
    by (simp add: wait_for_message_None falsy_def)
next
  case (Cons a rest)
  show ?thesis
  proof (cases a)
    case None
    with assms Cons show ?thesis
      by (simp add: wait_for_message_None falsy_def)
  next
    case (Some m)
    with assms Cons have w: "wait_for_message t kk (Some m) s = (Inr fm, s1)"
      by simp
    from wait_for_message_delivers [OF w] that [of m rest] Cons Some show ?thesis
      by simp
  qed
qed

lemma ack_loop_keeps:
  "ack_loop i timeout t0 elapsed tr s = (r, tr', s') \<Longrightarrow> keeps s s'"
proof (induction tr arbitrary: elapsed s)
  case Nil
  from Nil.prems show ?case
  proof (cases rule: ack_loop_cases)
    case expired
    then show ?thesis by (simp add: keeps_refl)
  next
    case (failed e)
    then show ?thesis using wait_for_message_keeps by blast
  next
    case (silent fm)
    then show ?thesis using wait_for_message_keeps by blast
  next
    case (acked fm)
    then show ?thesis using wait_for_message_keeps by blast
  next
    case (again fm s1)
    from wait_truthy_arrival [OF again(2,3)] show ?thesis
      by blast
  qed
next
  case (Cons a rest)
  from Cons.prems show ?case
  proof (cases rule: ack_loop_cases)
    case expired
    then show ?thesis by (simp add: keeps_refl)
  next
    case (failed e)
    then show ?thesis using wait_for_message_keeps by blast
  next
    case (silent fm)
    then show ?thesis using wait_for_message_keeps by blast
  next
    case (acked fm)
    then show ?thesis using wait_for_message_keeps by blast
  next
    case (again fm s1)
    have "keeps (s1\<lparr>clock_reads := Suc (clock_reads s1)\<rparr>) s'"
      using Cons.IH again(5) by simp
    moreover have "keeps s s1"
      using again(2) by (rule wait_for_message_keeps)
    ultimately show ?thesis
      using keeps_clock keeps_trans by blast
  qed
qed


lemma has_kind_iff: "has_kind k m \<longleftrightarrow> m \<noteq> [] \<and> hd m = MessageType_value k"
  by (cases m) (simp_all add: has_kind_def)

lemma ack_cell_after_wait:
  assumes "message_received s = cbs0 @ [AckObserver i k]"
    and "\<forall>cb\<in>set cbs0. closure_id cb < i"
    and "cells s i = None"
    and w: "wait_for_message t kk (Some m) s = (Inr fm, s1)"
  shows "cells s1 i = (if has_kind k m then Some m else None)"
proof -
  have "AckObserver i k \<in> set (message_received s)"
    using assms(1) by simp
  from new_closure_fresh [OF this] have ne: "i \<noteq> new_closure (message_received s)"
    by simp
  have nw: "WaitObserver i \<notin> set (message_received s)"
    using assms(1,2) by auto
  have ak: "AckObserver i k' \<in> set (message_received s) \<longleftrightarrow> k' = k" for k'
    using assms(1,2) by auto
  have f: "falsy (cells s i)"
    using assms(3) by (simp add: falsy_def)
  from wait_for_message_delivers [OF w] ne have
    "cells s1 i =
            (if WaitObserver i \<in> set (message_received s)
                \<or> (falsy (cells s i)
                    \<and> (\<exists>k. AckObserver i k \<in> set (message_received s)
                          \<and> hd m = MessageType_value k))
             then Some m else cells s i)" and "m \<noteq> []"
    by simp_all
  then show ?thesis
    unfolding ak using nw f assms(3) by (simp add: has_kind_iff)
qed

lemma ack_loop_result:
  assumes "message_received s = cbs0 @ [AckObserver i k]"
    and "\<forall>cb\<in>set cbs0. closure_id cb < i"
    and "cells s i = None"
    and "ack_loop i timeout t0 elapsed tr s = (r, tr', s')"
  shows "(\<exists>e. r = Inl e)
     \<or> (r = Inr None \<and> (\<exists>pre. tr = pre @ tr' \<and> list_all (\<lambda>a. \<not> brings k a) pre))
     \<or> (\<exists>ack pre. r = Inr (Some ack) \<and> tr = pre @ Some ack # tr' \<and> has_kind k ack
           \<and> list_all (\<lambda>a. \<not> brings k a) pre)"
  using assms
proof (induction tr arbitrary: elapsed s)
  case Nil
  from Nil.prems(4) show ?case
  proof (cases rule: ack_loop_cases)
    case expired
    then show ?thesis by simp
  next
    case (failed e)
    then show ?thesis by simp
  next
    case (silent fm)
    then show ?thesis by simp
  next
    case (acked fm)
    from wait_truthy_arrival [OF acked(2,3)] show ?thesis
      by blast
  next
    case (again fm s1)
    from wait_truthy_arrival [OF again(2,3)] show ?thesis
      by blast
  qed
next
  case (Cons a rest)
  from Cons.prems(4) show ?case
  proof (cases rule: ack_loop_cases)
    case expired
    then show ?thesis by simp
  next
    case (failed e)
    then show ?thesis by simp
  next
    case (silent fm)
    have "a = None"
    proof (cases a)
      case None
      then show ?thesis .
    next
      case (Some m)
      with silent(2) have "wait_for_message (timeout - elapsed) MessageType_None (Some m) s = (Inr fm, s')"
        by simp
      from wait_for_message_delivers [OF this] silent(3) show ?thesis
        by (simp add: falsy_def)
    qed
    then have "a # rest = [a] @ tr'" "list_all (\<lambda>a. \<not> brings k a) [a]"
      using silent(5) by (simp_all add: brings_def)
    with silent(4) show ?thesis
      by blast
  next
    case (acked fm)
    from wait_truthy_arrival [OF acked(2,3)] obtain m where
      a: "a = Some m" and fm: "fm = Some m" and ne: "m \<noteq> []"
      by auto
    from acked(2) a have w: "wait_for_message (timeout - elapsed) MessageType_None (Some m) s = (Inr fm, s')"
      by simp
    from ack_cell_after_wait [OF Cons.prems(1,2,3) w] acked(4)
    have c: "cells s' i = Some m" and hk: "has_kind k m"
      by (auto simp: falsy_def split: if_splits)
    have "a # rest = [] @ Some m # tr' \<and> list_all (\<lambda>a. \<not> brings k a) []"
      using a acked(6) by simp
    with acked(5) c hk show ?thesis
      by blast
  next
    case (again fm s1)
    from wait_truthy_arrival [OF again(2,3)] obtain m where
      a: "a = Some m" and fm: "fm = Some m" and ne: "m \<noteq> []"
      by auto
    from again(2) a have w: "wait_for_message (timeout - elapsed) MessageType_None (Some m) s = (Inr fm, s1)"
      by simp
    from ack_cell_after_wait [OF Cons.prems(1,2,3) w] again(4) ne
    have c: "cells s1 i = None" and hk: "\<not> has_kind k m"
      by (auto simp: falsy_def split: if_splits)
    have mr: "message_received s1 = message_received s"
      using wait_for_message_keeps [OF w] by (simp add: keeps_def)
    let ?s2 = "s1\<lparr>clock_reads := Suc (clock_reads s1)\<rparr>"
    have rec: "ack_loop i timeout t0 (perf_counter s1 (clock_reads s1) - t0) rest ?s2 = (r, tr', s')"
      using again(5) by simp
    have "(\<exists>e. r = Inl e)
     \<or> (r = Inr None \<and> (\<exists>pre. rest = pre @ tr' \<and> list_all (\<lambda>a. \<not> brings k a) pre))
     \<or> (\<exists>ack pre. r = Inr (Some ack) \<and> rest = pre @ Some ack # tr' \<and> has_kind k ack
           \<and> list_all (\<lambda>a. \<not> brings k a) pre)"
      by (rule Cons.IH [OF _ Cons.prems(2) _ rec]) (simp_all add: mr Cons.prems(1) c)
    moreover have nb: "\<not> brings k a"
      using a hk by (simp add: brings_def)
    moreover have "\<And>pre. rest = pre @ tr' \<Longrightarrow> list_all (\<lambda>a. \<not> brings k a) pre
        \<Longrightarrow> a # rest = (a # pre) @ tr' \<and> list_all (\<lambda>a. \<not> brings k a) (a # pre)"
      using nb by simp
    moreover have "\<And>pre ack. rest = pre @ Some ack # tr' \<Longrightarrow> list_all (\<lambda>a. \<not> brings k a) pre
        \<Longrightarrow> a # rest = (a # pre) @ Some ack # tr' \<and> list_all (\<lambda>a. \<not> brings k a) (a # pre)"
      using nb by simp
    ultimately show ?thesis
      by metis
  qed
qed

lemma ack_loop_no_error:
  assumes "list_all arrival_ok tr" "battery_voltage s \<noteq> None"
    and "ack_loop i timeout t0 elapsed tr s = (r, tr', s')"
  shows "r \<noteq> Inl e"
  using assms
proof (induction tr arbitrary: elapsed s)
  case Nil
  from Nil.prems(3) show ?case
  proof (cases rule: ack_loop_cases)
    case (failed e')
    then show ?thesis by (simp add: wait_for_message_None)
  next
    case (again fm s1)
    from wait_truthy_arrival [OF again(2,3)] show ?thesis
      by blast
  qed simp_all
next
  case (Cons a rest)
  from Cons.prems(3) show ?case
  proof (cases rule: ack_loop_cases)
    case (failed e')
    show ?thesis
    proof (cases a)
      case None
      with failed show ?thesis by (simp add: wait_for_message_None)
    next
      case (Some m)
      with Cons.prems(1) have "well_formed m"
        by (simp add: arrival_ok_def)
      from wait_for_message_well_formed [OF this Cons.prems(2), of "timeout - elapsed" MessageType_None]
        failed(2) Some show ?thesis
        by auto
    qed
  next
    case (again fm s1)
    have k: "keeps s s1"
      using again(2) by (rule wait_for_message_keeps)
    then have bv: "battery_voltage (s1\<lparr>clock_reads := Suc (clock_reads s1)\<rparr>) \<noteq> None"
      using Cons.prems(2) by (auto simp: keeps_def)
    have rec: "ack_loop i timeout t0 (perf_counter s1 (clock_reads s1) - t0) rest
        (s1\<lparr>clock_reads := Suc (clock_reads s1)\<rparr>) = (r, tr', s')"
      using again(5) by simp
    from Cons.IH [OF _ bv rec] Cons.prems(1) show ?thesis
      by simp
  qed simp_all
qed

subsection \<open>Request and acknowledgement\<close>

lemma send_and_ack_rejected:
  "\<not> 0 \<le> timeout \<Longrightarrow> send_and_ack mt data k timeout tr s = (Inl AssertionError, tr, s)"
  "0 \<le> timeout \<Longrightarrow> \<not> list_all is_byte data
     \<Longrightarrow> send_and_ack mt data k timeout tr s = (Inl ValueError, tr, s)"
  by (simp_all add: send_and_ack_def send_result)

lemma send_and_ack_run:
  assumes "0 \<le> timeout" "list_all is_byte data"
  shows "send_and_ack mt data k timeout tr s =
     (case ack_loop (new_closure (message_received s)) timeout (perf_counter s (clock_reads s)) 0
             tr (armed mt data k s) of
        (Inl e, tr', s4) \<Rightarrow> (Inl e, tr', detach (ack_observer k s) s4)
      | (Inr (Some ack_msg), tr', s4) \<Rightarrow> (Inr ack_msg, tr', detach (ack_observer k s) s4)
      | (Inr None, tr', s4) \<Rightarrow> (Inl (AckTimeout k timeout), tr', detach (ack_observer k s) s4))"
  using assms
  by (simp add: send_and_ack_def send_result Let_def armed_def ack_observer_def
      record_action_fields attach_fields split: prod.splits sum.splits option.splits)

lemma armed_fields:
  "message_received (armed mt data k s) = message_received s @ [ack_observer k s]"
  "history (armed mt data k s) =
     history s @ [Written (MessageType_value mt # data), Attached (ack_observer k s)]"
  "cells (armed mt data k s) (new_closure (message_received s)) = None"
  "tracing (armed mt data k s) = tracing s"
  "perf_counter (armed mt data k s) = perf_counter s"
  "get_continue (armed mt data k s) = get_continue s"
  "battery_voltage (armed mt data k s) = battery_voltage s"
  by (simp_all add: armed_def attach_fields record_action_fields)

lemma send_and_ack_outcome:
  assumes "0 \<le> timeout" "list_all is_byte data"
    and "send_and_ack mt data k timeout tr s = (r, tr', s')"
  obtains r4 s4 where
    "ack_loop (new_closure (message_received s)) timeout (perf_counter s (clock_reads s)) 0
       tr (armed mt data k s) = (r4, tr', s4)"
    "s' = detach (ack_observer k s) s4"
    "r = (case r4 of Inl e \<Rightarrow> Inl e | Inr None \<Rightarrow> Inl (AckTimeout k timeout)
          | Inr (Some ack_msg) \<Rightarrow> Inr ack_msg)"
proof -
  obtain r4 tr4 s4 where l: "ack_loop (new_closure (message_received s)) timeout
      (perf_counter s (clock_reads s)) 0 tr (armed mt data k s) = (r4, tr4, s4)"
    by (cases "ack_loop (new_closure (message_received s)) timeout
      (perf_counter s (clock_reads s)) 0 tr (armed mt data k s)")
  from assms(3) have "tr4 = tr'" "s' = detach (ack_observer k s) s4"
    "r = (case r4 of Inl e \<Rightarrow> Inl e | Inr None \<Rightarrow> Inl (AckTimeout k timeout)
          | Inr (Some ack_msg) \<Rightarrow> Inr ack_msg)"
    unfolding send_and_ack_run [OF assms(1,2)] l
    by (auto split: sum.splits option.splits)
  with l that show thesis
    by blast
qed

lemma send_and_ack_frame:
  assumes "0 \<le> timeout" "list_all is_byte data"
    and "send_and_ack mt data k timeout tr s = (r, tr', s')"
  shows "message_received s' = message_received s"
    and "\<exists>ext. history s' = history s
            @ [Written (MessageType_value mt # data), Attached (ack_observer k s)]
            @ ext @ [Detached (ack_observer k s)] \<and> list_all wait_action ext"
    and "tracing s' = tracing s" and "perf_counter s' = perf_counter s"
    and "get_continue s' = get_continue s"
    and "battery_voltage s' = None \<longrightarrow> battery_voltage s = None"
proof -
  from assms obtain r4 s4 where
    l: "ack_loop (new_closure (message_received s)) timeout (perf_counter s (clock_reads s)) 0
       tr (armed mt data k s) = (r4, tr', s4)" and
    s': "s' = detach (ack_observer k s) s4"
    by (rule send_and_ack_outcome)
  note k = keepsD [OF ack_loop_keeps [OF l]]
  have fresh: "ack_observer k s \<notin> set (message_received s)"
    unfolding ack_observer_def by (rule new_closure_not_attached(2))
  show "message_received s' = message_received s"
    using fresh by (simp add: s' detach_fields k(1) armed_fields remove1_append)
  from k(5) obtain ext where "history s4 = history (armed mt data k s) @ ext"
    "list_all wait_action ext"
    by blast
  then show "\<exists>ext. history s' = history s
            @ [Written (MessageType_value mt # data), Attached (ack_observer k s)]
            @ ext @ [Detached (ack_observer k s)] \<and> list_all wait_action ext"
    by (simp add: s' detach_fields armed_fields)
  show "tracing s' = tracing s" "perf_counter s' = perf_counter s"
    "get_continue s' = get_continue s"
    by (simp_all add: s' detach_fields k armed_fields)
  show "battery_voltage s' = None \<longrightarrow> battery_voltage s = None"
    using k(6) by (simp add: s' detach_fields armed_fields)
qed

lemma send_and_ack_result:
  assumes "0 \<le> timeout" "list_all is_byte data"
    and "send_and_ack mt data k timeout tr s = (r, tr', s')"
  shows "(\<exists>e. r = Inl e \<and> (list_all arrival_ok tr \<longrightarrow> battery_voltage s = None))
     \<or> (r = Inl (AckTimeout k timeout)
          \<and> (\<exists>pre. tr = pre @ tr' \<and> list_all (\<lambda>a. \<not> brings k a) pre))
     \<or> (\<exists>ack pre. r = Inr ack \<and> tr = pre @ Some ack # tr' \<and> has_kind k ack
           \<and> list_all (\<lambda>a. \<not> brings k a) pre)"
proof -
  from assms obtain r4 s4 where
    l: "ack_loop (new_closure (message_received s)) timeout (perf_counter s (clock_reads s)) 0
       tr (armed mt data k s) = (r4, tr', s4)" and
    r: "r = (case r4 of Inl e \<Rightarrow> Inl e | Inr None \<Rightarrow> Inl (AckTimeout k timeout)
          | Inr (Some ack_msg) \<Rightarrow> Inr ack_msg)"
    by (rule send_and_ack_outcome)
  have own: "message_received (armed mt data k s)
      = message_received s @ [AckObserver (new_closure (message_received s)) k]"
    by (simp add: armed_fields ack_observer_def)
  have low: "\<forall>cb\<in>set (message_received s). closure_id cb < new_closure (message_received s)"
    using new_closure_fresh by blast
  from ack_loop_result [OF own low armed_fields(3) l]
  consider (err) e where "r4 = Inl e"
    | (none) pre where "r4 = Inr None" "tr = pre @ tr'" "list_all (\<lambda>a. \<not> brings k a) pre"
    | (some) ack pre where "r4 = Inr (Some ack)" "tr = pre @ Some ack # tr'" "has_kind k ack"
        "list_all (\<lambda>a. \<not> brings k a) pre"
    by blast
  then show ?thesis
  proof cases
    case err
    have "list_all arrival_ok tr \<longrightarrow> battery_voltage s = None"
    proof (rule ccontr)
      assume "\<not> (list_all arrival_ok tr \<longrightarrow> battery_voltage s = None)"
      then have "list_all arrival_ok tr" "battery_voltage (armed mt data k s) \<noteq> None"
        by (simp_all add: armed_fields)
      from ack_loop_no_error [OF this l, of e] err show False
        by simp
    qed
    with err r show ?thesis by simp
  next
    case none
    with r show ?thesis by auto
  next
    case some
    with r show ?thesis by auto
  qed
qed

subsection \<open>Helpers for the claims\<close>

lemma wait_for_message_last:
  "history (snd (wait_for_message t kk a s)) =
     butlast (history (snd (wait_for_message t kk a s)))
       @ [Detached (WaitObserver (new_closure (message_received s)))]"
  by (simp add: wait_for_message_def Let_def detach_fields)

lemma MessageType_of_value: "MessageType_of (MessageType_value k) = Some k"
  by (cases k) (simp_all add: MessageType_of_def MessageType_members_def)

lemma unknown_kind_unhandled:
  assumes "MessageType_of k = None"
  shows "kind_handlers k payload s = (Inr (), s)"
proof -
  have ne: "k \<noteq> MessageType_value t" for t
    using assms MessageType_of_value [of t] by auto
  show ?thesis
    using ne [of IAmADie] ne [of DebugLog] ne [of BatteryLevel] ne [of State] ne [of NotifyUser]
    by (simp add: kind_handlers_def)
qed

lemma notify_history:
  assumes "m \<noteq> []"
  shows "fst (notify m s) = Inr ()" "history (snd (notify m s)) = history s @ [Published m]"
    "dtype (snd (notify m s)) = dtype s" "face_up (snd (notify m s)) = face_up s"
    "battery_voltage (snd (notify m s)) = battery_voltage s"
    "message_received (snd (notify m s)) = message_received s"
proof -
  obtain c where n: "notify m s = (Inr (), (record_action (Published m) s)\<lparr>cells := c\<rparr>)"
    using notify_cells [OF assms] by blast
  show "fst (notify m s) = Inr ()" "history (snd (notify m s)) = history s @ [Published m]"
    "dtype (snd (notify m s)) = dtype s" "face_up (snd (notify m s)) = face_up s"
    "battery_voltage (snd (notify m s)) = battery_voltage s"
    "message_received (snd (notify m s)) = message_received s"
    by (simp_all add: n record_action_fields)
qed

lemma ack_observer_ready: "ack_observer k ready_session = AckObserver 1 k"
  by (simp add: ack_observer_def ready_session_def new_session_def new_closure_def)

subsection \<open>Construction\<close>

lemma update_state_dtype: "dtype (update_state state face s) = dtype s"
  by (simp add: update_state_def Let_def record_action_fields)

lemma update_battery_voltage_dtype: "dtype (snd (update_battery_voltage v s)) = dtype s"
  by (simp add: update_battery_voltage_def record_action_fields split: option.splits)

lemma notify_user_dtype: "dtype (snd (notify_user m s)) = dtype s"
  by (simp add: notify_user_def send_result and_then_def Let_def record_action_fields
      split: list.splits sum.splits)

lemma kind_handlers_dtype:
  assumes "dtype s = Some t" "t \<noteq> DiceType_None"
  shows "dtype (snd (kind_handlers k payload s)) = Some t"
proof -
  consider (c1) "k = MessageType_value IAmADie" | (c2) "k = MessageType_value DebugLog"
    | (c3) "k = MessageType_value BatteryLevel" | (c4) "k = MessageType_value State"
    | (c5) "k = MessageType_value NotifyUser"
    | (c6) "k \<noteq> MessageType_value IAmADie \<and> k \<noteq> MessageType_value DebugLog
        \<and> k \<noteq> MessageType_value BatteryLevel \<and> k \<noteq> MessageType_value State
        \<and> k \<noteq> MessageType_value NotifyUser"
    by blast
  then show ?thesis
  proof cases
    case c1
    with assms show ?thesis
      by (simp add: kind_handlers_def)
  next
    case c2
    with assms show ?thesis
      by (cases "decode_utf8 payload") (simp_all add: kind_handlers_def)
  next
    case c3
    with assms update_battery_voltage_dtype [of _ s] show ?thesis
      by (cases "unpack_float payload") (simp_all add: kind_handlers_def)
  next
    case c4
    have "dtype (snd (case payload of
           [state, face] \<Rightarrow> (Inr (), update_state state face s)
         | _ \<Rightarrow> (Inl TypeError, s))) = dtype s"
      by (simp add: update_state_dtype split: list.splits)
    with c4 assms show ?thesis
      by (simp add: kind_handlers_def)
  next
    case c5
    have "dtype (snd (and_then (notify_user (k # payload) s) (\<lambda>_ s'. (Inr (), s')))) = dtype s"
      using notify_user_dtype [of "k # payload" s]
      by (cases "notify_user (k # payload) s") (auto simp: and_then_def split: sum.splits)
    with c5 assms show ?thesis
      by (simp add: kind_handlers_def)
  next
    case c6
    with assms show ?thesis
      by (simp add: kind_handlers_def)
  qed
qed

lemma process_message_dtype:
  assumes "dtype s = Some t" "t \<noteq> DiceType_None"
  shows "dtype (snd (process_message m s)) = Some t"
proof (cases m)
  case Nil
  with assms show ?thesis by (simp add: process_message_def)
next
  case (Cons k payload)
  obtain r1 s1 where h: "kind_handlers k payload s = (r1, s1)"
    by (cases "kind_handlers k payload s")
  have d1: "dtype s1 = Some t"
    using kind_handlers_dtype [OF assms, of k payload] by (simp add: h)
  have d2: "dtype (snd (notify (k # payload) s1)) = Some t"
    using notify_history(3) [of "k # payload" s1] d1 by simp
  show ?thesis
    using assms(1) d1 d2
    by (cases r1) (simp_all add: Cons process_message_handlers h and_then_def)
qed

lemma wait_for_message_dtype:
  assumes "dtype s = Some t" "t \<noteq> DiceType_None"
  shows "dtype (snd (wait_for_message timeout kk a s)) = Some t"
proof (cases a)
  case None
  with assms(1) show ?thesis
    by (simp add: wait_for_message_None detach_fields record_action_fields attach_fields)
next
  case (Some m)
  let ?j = "new_closure (message_received s)"
  let ?sW = "record_action (Waited timeout)
      (attach (WaitObserver ?j) (s\<lparr>cells := (cells s)(?j := None)\<rparr>))"
  have "dtype ?sW = Some t"
    using assms(1) by (simp add: record_action_fields attach_fields)
  from process_message_dtype [OF this assms(2), of m] show ?thesis
    by (simp add: Some wait_for_message_Some Let_def detach_fields)
qed

lemma identify_success:
  assumes "identify service_found tr s = (Inr u, tr', s')"
  obtains fm s2 fm2 where
    "wait_for_message 1 IAmADie (fst (next_arrival tr))
       (record_action (Written [1]) (record_action NotificationsEnabled s)) = (Inr fm, s2)"
    "dtype s2 \<noteq> None" "dtype s2 \<noteq> Some DiceType_None"
    "wait_for_message 1 BatteryLevel (fst (next_arrival (snd (next_arrival tr))))
       (record_action (Written [27]) (s2\<lparr>battery_voltage := Some Sentinel\<rparr>)) = (Inr fm2, s')"
proof -
  let ?s1 = "record_action (Written [1]) (record_action NotificationsEnabled s)"
  obtain r1 s2 where w1: "wait_for_message 1 IAmADie (fst (next_arrival tr)) ?s1 = (r1, s2)"
    by (cases "wait_for_message 1 IAmADie (fst (next_arrival tr)) ?s1")
  let ?s3 = "record_action (Written [27]) (s2\<lparr>battery_voltage := Some Sentinel\<rparr>)"
  obtain r2 s4 where w2: "wait_for_message 1 BatteryLevel
      (fst (next_arrival (snd (next_arrival tr)))) ?s3 = (r2, s4)"
    by (cases "wait_for_message 1 BatteryLevel (fst (next_arrival (snd (next_arrival tr)))) ?s3")
  from assms have "\<exists>fm fm2. r1 = Inr fm \<and> dtype s2 \<noteq> None \<and> dtype s2 \<noteq> Some DiceType_None
      \<and> r2 = Inr fm2 \<and> s' = s4"
    by (simp add: identify_def send_result refresh_battery_voltage_def w1 w2 is_byte_def
        split: if_splits sum.splits)
  with w1 w2 that show thesis
    by blast
qed

lemma iamadie_dispatch:
  assumes "dtype s = None" "DiceType_of d = Some t"
  shows "process_message (2 # d # xs) s = notify (2 # d # xs) (s\<lparr>dtype := Some t\<rparr>)"
  using assms MessageType_of_value [of IAmADie]
  by (simp add: process_message_handlers kind_handlers_def and_then_def)


lemma wait_action_not_disconnected: "list_all wait_action ext \<Longrightarrow> Disconnected \<notin> set ext"
  by (auto simp: list_all_iff)

lemma identify_ready:
  assumes "identify service_found tr (new_session trace_flag clock answers) = (Inr u, tr', s')"
  shows "dtype s' = Some DiceType_6 \<or> dtype s' = Some DiceType_20"
    and "battery_voltage s' \<noteq> None" and "Disconnected \<notin> set (history s')"
    and "message_received s' = []"
proof -
  let ?s0 = "new_session trace_flag clock answers"
  let ?s1 = "record_action (Written [1]) (record_action NotificationsEnabled ?s0)"
  from assms obtain fm s2 fm2 where
    w1: "wait_for_message 1 IAmADie (fst (next_arrival tr)) ?s1 = (Inr fm, s2)" and
    d2: "dtype s2 \<noteq> None" "dtype s2 \<noteq> Some DiceType_None" and
    w2: "wait_for_message 1 BatteryLevel (fst (next_arrival (snd (next_arrival tr))))
       (record_action (Written [27]) (s2\<lparr>battery_voltage := Some Sentinel\<rparr>)) = (Inr fm2, s')"
    by (rule identify_success)
  let ?s3 = "record_action (Written [27]) (s2\<lparr>battery_voltage := Some Sentinel\<rparr>)"
  from d2 obtain t where t: "dtype s2 = Some t" "t \<noteq> DiceType_None"
    by auto
  have "dtype ?s3 = Some t"
    using t(1) by (simp add: record_action_fields)
  from wait_for_message_dtype [OF this t(2), of 1 BatteryLevel
      "fst (next_arrival (snd (next_arrival tr)))"]
  have "dtype s' = Some t"
    by (simp add: w2)
  with t(2) show "dtype s' = Some DiceType_6 \<or> dtype s' = Some DiceType_20"
    by (cases t) simp_all
  note k1 = keepsD [OF wait_for_message_keeps [OF w1]]
  note k2 = keepsD [OF wait_for_message_keeps [OF w2]]
  show "battery_voltage s' \<noteq> None"
    using k2(6) by (simp add: record_action_fields)
  from k1(5) obtain ext1 where h1: "history s2 = history ?s1 @ ext1" and
    wa1: "list_all wait_action ext1"
    by blast
  from k2(5) obtain ext2 where h2: "history s' = history ?s3 @ ext2" and
    wa2: "list_all wait_action ext2"
    by blast
  have "history s' = [NotificationsEnabled, Written [1]] @ ext1 @ [Written [27]] @ ext2"
    using h1 h2 by (simp add: record_action_fields new_session_def)
  then show "Disconnected \<notin> set (history s')"
    using wait_action_not_disconnected [OF wa1] wait_action_not_disconnected [OF wa2] by simp
  show "message_received s' = []"
    using k1(1) k2(1) by (simp add: record_action_fields new_session_def)
qed

lemma identify_without_battery_reply:
  assumes "service_found" "d = 1 \<or> d = 2"
  shows "\<exists>s'. identify service_found (Some (2 # d # xs) # None # rest)
                 (new_session trace_flag clock answers) = (Inr (), rest, s')
            \<and> battery_voltage s' = Some Sentinel"
proof -
  let ?s0 = "new_session trace_flag clock answers"
  let ?s1 = "record_action (Written [1]) (record_action NotificationsEnabled ?s0)"
  let ?j = "new_closure (message_received ?s1)"
  let ?sW = "record_action (Waited 1)
      (attach (WaitObserver ?j) (?s1\<lparr>cells := (cells ?s1)(?j := None)\<rparr>))"
  from assms(2) obtain t where t: "DiceType_of d = Some t" "t \<noteq> DiceType_None"
    by (auto simp: DiceType_of_def)
  have "dtype ?sW = None"
    by (simp add: record_action_fields attach_fields new_session_def)
  from iamadie_dispatch [OF this t(1), of xs]
  have p: "process_message (2 # d # xs) ?sW = notify (2 # d # xs) (?sW\<lparr>dtype := Some t\<rparr>)" .
  obtain r1 s2 where w1: "wait_for_message 1 IAmADie (Some (2 # d # xs)) ?s1 = (r1, s2)"
    by (cases "wait_for_message 1 IAmADie (Some (2 # d # xs)) ?s1")
  have r1: "\<exists>fm. r1 = Inr fm" and d2: "dtype s2 = Some t"
    using w1 notify_history(1,3) [of "2 # d # xs" "?sW\<lparr>dtype := Some t\<rparr>"]
    by (auto simp: wait_for_message_Some Let_def p detach_fields)
  then obtain fm where fm: "r1 = Inr fm"
    by blast
  let ?s3 = "record_action (Written [27]) (s2\<lparr>battery_voltage := Some Sentinel\<rparr>)"
  obtain s4 where w2: "wait_for_message 1 BatteryLevel None ?s3 = (Inr None, s4)"
    and b4: "battery_voltage s4 = Some Sentinel"
    by (simp add: wait_for_message_None detach_fields record_action_fields attach_fields)
  have "identify service_found (Some (2 # d # xs) # None # rest) ?s0 = (Inr (), rest, s4)"
    using assms(1) t(2) d2
    by (simp add: identify_def send_result refresh_battery_voltage_def w1 fm w2 is_byte_def)
  with b4 show ?thesis
    by blast
qed

subsection \<open>Bulk transfer\<close>

lemma written_wait_actions:
  "list_all wait_action ext \<Longrightarrow> list_all (\<lambda>d. d = [32, 0] \<or> d = [32, 1]) (written ext)"
  by (induction ext rule: written.induct) simp_all

lemma bulk_messages_wait_actions:
  assumes "list_all wait_action ext"
  shows "bulk_messages ext = []"
proof -
  have "list_all (\<lambda>d. \<not> (has_kind BulkSetup d \<or> has_kind BulkData d)) (written ext)"
    using written_wait_actions [OF assms]
    by (rule list.pred_mono_strong) (auto simp: has_kind_def)
  then show ?thesis
    unfolding bulk_messages_def by (simp add: filter_empty_conv list_all_iff)
qed

lemma bulk_messages_append: "bulk_messages (xs @ ys) = bulk_messages xs @ bulk_messages ys"
  by (simp add: bulk_messages_def written_append)

lemma bulk_messages_request:
  assumes "list_all wait_action ext" "has_kind BulkSetup req \<or> has_kind BulkData req"
  shows "bulk_messages ([Written req, Attached ob] @ ext @ [Detached ob]) = [req]"
proof -
  have 1: "bulk_messages [Written req, Attached ob] = [req]"
    using assms(2) by (simp add: bulk_messages_def)
  have 2: "bulk_messages [Detached ob] = []"
    by (simp add: bulk_messages_def)
  show ?thesis
    unfolding bulk_messages_append 1 2 bulk_messages_wait_actions [OF assms(1)] by simp
qed

lemma send_and_ack_success:
  assumes "send_and_ack mt data k timeout tr s = (Inr ack, tr', s')"
  shows "0 \<le> timeout" "list_all is_byte data"
proof -
  show "0 \<le> timeout"
    using assms send_and_ack_rejected(1) [of timeout mt data k tr s] by auto
  then show "list_all is_byte data"
    using assms send_and_ack_rejected(2) [of timeout data mt k tr s] by auto
qed

lemma integer_to_bytes_2:
  "integer_to_bytes i 2 = [i mod 256, i div 256 mod 256]"
  by (simp add: integer_to_bytes_def numeral_2_eq_2)

lemma integer_to_bytes_bytes: "list_all is_byte (integer_to_bytes i 2)"
  by (simp add: integer_to_bytes_2 is_byte_def)

lemma ack_loop_suffix:
  "ack_loop i timeout t0 elapsed tr s = (r, tr', s') \<Longrightarrow> \<exists>pre. tr = pre @ tr'"
proof (induction tr arbitrary: elapsed s)
  case Nil
  from Nil.prems show ?case
  proof (cases rule: ack_loop_cases)
    case (again fm s1)
    from wait_truthy_arrival [OF again(2,3)] show ?thesis
      by blast
  qed simp_all
next
  case (Cons a rest)
  from Cons.prems show ?case
  proof (cases rule: ack_loop_cases)
    case expired
    then show ?thesis by simp
  next
    case (failed e)
    then have "a # rest = [a] @ tr'" by simp
    then show ?thesis by blast
  next
    case (silent fm)
    then have "a # rest = [a] @ tr'" by simp
    then show ?thesis by blast
  next
    case (acked fm)
    then have "a # rest = [a] @ tr'" by simp
    then show ?thesis by blast
  next
    case (again fm s1)
    from Cons.IH [of "perf_counter s1 (clock_reads s1) - t0"
        "s1\<lparr>clock_reads := Suc (clock_reads s1)\<rparr>"] again(5)
    obtain pre where "rest = pre @ tr'"
      by auto
    then have "a # rest = (a # pre) @ tr'"
      by simp
    then show ?thesis by blast
  qed
qed

lemma send_and_ack_suffix:
  assumes "send_and_ack mt data k timeout tr s = (r, tr', s')"
  shows "\<exists>pre. tr = pre @ tr'"
proof (cases "0 \<le> timeout \<and> list_all is_byte data")
  case True
  with assms obtain r4 s4 where
    "ack_loop (new_closure (message_received s)) timeout (perf_counter s (clock_reads s)) 0
       tr (armed mt data k s) = (r4, tr', s4)"
    by (auto elim: send_and_ack_outcome)
  then show ?thesis
    by (rule ack_loop_suffix)
next
  case False
  with assms send_and_ack_rejected
    [where timeout = timeout and mt = mt and data = data and k = k and tr = tr and s = s]
  have "tr' = tr"
    by auto
  then show ?thesis
    by simp
qed

lemma list_plus_slice:
  "list_plus xs (py_slice (PyList l) i (i + n)) = Inr (xs @ take n (drop i l))"
  "list_plus xs (py_slice (PyBytes b) i j) = Inl TypeError"
  by (simp_all add: list_plus_def py_slice_def)

lemma bulk_loop_cases:
  assumes "bulk_loop data timeout remainingSize offset tr s = (r, tr', s')"
  obtains
    (finished) "remainingSize = 0" "r = Inr ()" "tr' = tr" "s' = s"
  | (type_error) e where "0 < remainingSize"
      "list_plus (int (min remainingSize 16) # integer_to_bytes (int offset) 2)
         (py_slice data offset (offset + min remainingSize 16)) = Inl e"
      "r = Inl e" "tr' = tr" "s' = s"
  | (failed) msg_data e where "0 < remainingSize"
      "list_plus (int (min remainingSize 16) # integer_to_bytes (int offset) 2)
         (py_slice data offset (offset + min remainingSize 16)) = Inr msg_data"
      "send_and_ack BulkData msg_data BulkDataAck timeout tr s = (Inl e, tr', s')"
      "r = Inl e"
  | (sent) msg_data ack tr1 s1 where "0 < remainingSize"
      "list_plus (int (min remainingSize 16) # integer_to_bytes (int offset) 2)
         (py_slice data offset (offset + min remainingSize 16)) = Inr msg_data"
      "send_and_ack BulkData msg_data BulkDataAck timeout tr s = (Inr ack, tr1, s1)"
      "bulk_loop data timeout (remainingSize - min remainingSize 16)
         (offset + min remainingSize 16) tr1 s1 = (r, tr', s')"
proof -
  let ?arg = "list_plus (int (min remainingSize 16) # integer_to_bytes (int offset) 2)
         (py_slice data offset (offset + min remainingSize 16))"
  define next_loop where "next_loop tr1 s1 = bulk_loop data timeout
      (remainingSize - min remainingSize 16) (offset + min remainingSize 16) tr1 s1" for tr1 s1
  have unfolded: "(r, tr', s') =
     (if remainingSize > 0 then
        (case ?arg of
           Inl e \<Rightarrow> (Inl e, tr, s)
         | Inr msg_data \<Rightarrow>
             (case send_and_ack BulkData msg_data BulkDataAck timeout tr s of
                (Inl e, tr1, s1) \<Rightarrow> (Inl e, tr1, s1)
              | (Inr _, tr1, s1) \<Rightarrow> next_loop tr1 s1))
      else (Inr (), tr, s))"
    unfolding next_loop_def assms [symmetric]
    by (subst bulk_loop.simps) (simp add: PIXELS_MESSAGE_BULK_DATA_SIZE_def Let_def)
  show thesis
  proof (cases "remainingSize > 0")
    case False
    with unfolded finished show ?thesis by simp
  next
    case True
    show ?thesis
    proof (cases ?arg)
      case (Inl e)
      with unfolded True type_error [of e] show ?thesis by simp
    next
      case (Inr msg_data)
      obtain r1 tr1 s1 where sa:
        "send_and_ack BulkData msg_data BulkDataAck timeout tr s = (r1, tr1, s1)"
        by (cases "send_and_ack BulkData msg_data BulkDataAck timeout tr s")
      show ?thesis
      proof (cases r1)
        case (Inl e)
        with unfolded True \<open>?arg = Inr msg_data\<close> sa failed [of msg_data e] show ?thesis
          by simp
      next
        case r1: (Inr ack)
        with unfolded True Inr sa sent [of msg_data ack tr1 s1] show ?thesis
          by (simp add: next_loop_def)
      qed
    qed
  qed
qed

lemma bulk_loop_suffix:
  "bulk_loop data timeout remainingSize offset tr s = (r, tr', s') \<Longrightarrow> \<exists>pre. tr = pre @ tr'"
proof (induction remainingSize arbitrary: offset tr s rule: less_induct)
  case (less remainingSize)
  from less.prems show ?case
  proof (cases rule: bulk_loop_cases)
    case finished
    then show ?thesis by simp
  next
    case (type_error e)
    then show ?thesis by simp
  next
    case (failed msg_data e)
    from send_and_ack_suffix [OF failed(3)] show ?thesis .
  next
    case (sent msg_data ack tr1 s1)
    from send_and_ack_suffix [OF sent(3)] obtain pre1 where 1: "tr = pre1 @ tr1"
      by blast
    have "remainingSize - min remainingSize 16 < remainingSize"
      using sent(1) by simp
    from less.IH [OF this sent(4)] obtain pre2 where "tr1 = pre2 @ tr'"
      by blast
    with 1 have "tr = (pre1 @ pre2) @ tr'"
      by simp
    then show ?thesis
      by blast
  qed
qed

lemma bulk_loop_bytes:
  assumes "0 < remainingSize"
  shows "bulk_loop (PyBytes b) timeout remainingSize offset tr s = (Inl TypeError, tr, s)"
proof -
  obtain r tr' s' where l: "bulk_loop (PyBytes b) timeout remainingSize offset tr s = (r, tr', s')"
    by (cases "bulk_loop (PyBytes b) timeout remainingSize offset tr s")
  from l have "r = Inl TypeError \<and> tr' = tr \<and> s' = s"
    using assms by (cases rule: bulk_loop_cases) (simp_all add: list_plus_slice)
  with l show ?thesis
    by simp
qed

lemma chunk_request:
  assumes "offset + remainingSize = length data" "offset \<le> 65535"
  shows "MessageType_value BulkData
           # int (min remainingSize 16) # integer_to_bytes (int offset) 2
             @ take (min remainingSize 16) (drop offset data)
         = spec_chunk_message data offset"
proof -
  have r: "length data - offset = remainingSize"
    using assms(1) by simp
  have "int offset div 256 < 256"
    using assms(2) by simp
  then have "int offset div 256 mod 256 = int offset div 256"
    by simp
  then show ?thesis
    by (simp add: spec_chunk_message_def r Let_def integer_to_bytes_2)
qed

lemma chunk_count_step:
  assumes "16 * n < (L::nat)"
  shows "[n..<(L + 15) div 16] = n # [Suc n..<(L + 15) div 16]"
proof -
  have "n < (L + 15) div 16"
    using assms by simp
  then show ?thesis
    by (rule upt_conv_Cons)
qed

lemma chunk_count_last:
  assumes "16 * n < (L::nat)" "L \<le> 16 * n + 16"
  shows "[Suc n..<(L + 15) div 16] = []"
  using assms by simp

lemma bulk_loop_messages:
  assumes "bulk_loop (PyList data) timeout remainingSize offset tr s = (Inr (), tr', s')"
    and "offset + remainingSize = length data" "offset = 16 * n" "length data \<le> 65535"
  shows "\<exists>ext. history s' = history s @ ext
           \<and> bulk_messages ext
               = map (\<lambda>j. spec_chunk_message data (16 * j)) [n..<(length data + 15) div 16]"
  using assms
proof (induction remainingSize arbitrary: offset n tr s rule: less_induct)
  case (less remainingSize)
  from less.prems(1) show ?case
  proof (cases rule: bulk_loop_cases)
    case finished
    with less.prems(2,3) have "[n..<(length data + 15) div 16] = []"
      by simp
    with finished show ?thesis
      by (simp add: bulk_messages_def)
  next
    case (type_error e)
    then show ?thesis by simp
  next
    case (failed msg_data e)
    then show ?thesis by simp
  next
    case (sent msg_data ack tr1 s1)
    from sent(2) have md: "msg_data = int (min remainingSize 16) # integer_to_bytes (int offset) 2
            @ take (min remainingSize 16) (drop offset data)"
      by (simp add: list_plus_slice)
    note sent3 = sent(3) [unfolded md]
    let ?req = "int (min remainingSize 16) # integer_to_bytes (int offset) 2
            @ take (min remainingSize 16) (drop offset data)"
    note ok = send_and_ack_success [OF sent3]
    from send_and_ack_frame(2) [OF ok sent3] obtain ext1 where
      h1: "history s1 = history s
            @ ([Written (MessageType_value BulkData # ?req), Attached (ack_observer BulkDataAck s)]
            @ ext1 @ [Detached (ack_observer BulkDataAck s)])" and wa: "list_all wait_action ext1"
      by auto
    have off: "offset \<le> 65535"
      using less.prems(2,4) by simp
    have req: "MessageType_value BulkData # ?req = spec_chunk_message data (16 * n)"
      using chunk_request [OF less.prems(2) off] less.prems(3) by simp
    have b1: "bulk_messages ([Written (MessageType_value BulkData # ?req),
          Attached (ack_observer BulkDataAck s)] @ ext1 @ [Detached (ack_observer BulkDataAck s)])
        = [spec_chunk_message data (16 * n)]"
      using bulk_messages_request [OF wa, of "MessageType_value BulkData # ?req"] req
      by (simp add: has_kind_def)
    have lt: "16 * n < length data"
      using less.prems(2,3) sent(1) by simp
    show ?thesis
    proof (cases "remainingSize \<le> 16")
      case True
      then have "remainingSize - min remainingSize 16 = 0"
        by simp
      with sent(4) have "s' = s1"
        by (auto elim: bulk_loop_cases)
      moreover have "[Suc n..<(length data + 15) div 16] = []"
        using chunk_count_last [OF lt] less.prems(2,3) True by simp
      ultimately show ?thesis
        using h1 b1 chunk_count_step [OF lt] by (metis list.simps(8,9))
    next
      case False
      then have m: "min remainingSize 16 = 16"
        by simp
      have "\<exists>ext. history s' = history s1 @ ext
           \<and> bulk_messages ext
               = map (\<lambda>j. spec_chunk_message data (16 * j)) [Suc n..<(length data + 15) div 16]"
      proof (rule less.IH [OF _ sent(4) _ _ less.prems(4)])
        show "remainingSize - min remainingSize 16 < remainingSize"
          using sent(1) by simp
        show "offset + min remainingSize 16 + (remainingSize - min remainingSize 16) = length data"
          using less.prems(2) by simp
        show "offset + min remainingSize 16 = 16 * Suc n"
          using less.prems(3) m by simp
      qed
      then obtain ext2 where h2: "history s' = history s1 @ ext2" and
        b2: "bulk_messages ext2
               = map (\<lambda>j. spec_chunk_message data (16 * j)) [Suc n..<(length data + 15) div 16]"
        by blast
      let ?ext = "([Written (MessageType_value BulkData # ?req),
          Attached (ack_observer BulkDataAck s)] @ ext1 @ [Detached (ack_observer BulkDataAck s)])
          @ ext2"
      have "history s' = history s @ ?ext"
        using h1 h2 by simp
      moreover have "bulk_messages ?ext
          = map (\<lambda>j. spec_chunk_message data (16 * j)) [n..<(length data + 15) div 16]"
        unfolding bulk_messages_append [of _ ext2] b1 b2 chunk_count_step [OF lt] by simp
      ultimately show ?thesis
        by blast
    qed
  qed
qed

lemma upload_bulk_data_unfold:
  assumes "items data \<noteq> []" "0 \<le> timeout"
  shows "upload_bulk_data data timeout tr s =
     (case send_and_ack BulkSetup (integer_to_bytes (int (length (items data))) 2)
                BulkSetupAck timeout tr s of
           (Inl e, tr', s') \<Rightarrow> (Inl e, tr', s')
         | (Inr _, tr', s') \<Rightarrow> bulk_loop data timeout (length (items data)) 0 tr' s')"
  using assms by (simp add: upload_bulk_data_def)

lemma upload_bulk_data_rejected:
  "items data = [] \<or> \<not> 0 \<le> timeout
     \<Longrightarrow> upload_bulk_data data timeout tr s = (Inl AssertionError, tr, s)"
  by (auto simp: upload_bulk_data_def)

lemma setup_request:
  assumes "length data \<le> 65535"
  shows "MessageType_value BulkSetup # integer_to_bytes (int (length data)) 2
     = spec_setup_message data"
proof -
  have "int (length data) div 256 < 256"
    using assms by simp
  then have "int (length data) div 256 mod 256 = int (length data) div 256"
    by simp
  then show ?thesis
    by (simp add: spec_setup_message_def integer_to_bytes_2)
qed

lemma ceiling_sixteenths: "nat \<lceil>real L / 16\<rceil> = (L + 15) div 16"
proof -
  have "\<lceil>real L / 16\<rceil> = \<lceil>of_int (int L) / (of_int 16 :: real)\<rceil>"
    by simp
  also have "\<dots> = - (- int L div 16)"
    by (rule ceiling_divide_eq_div)
  finally show ?thesis
    by simp
qed

lemma send_and_ack_acked:
  assumes "0 \<le> timeout" "list_all is_byte data" "well_formed ack" "has_kind k ack"
    and "battery_voltage s \<noteq> None"
  shows "\<exists>s'. send_and_ack mt data k timeout (Some ack # rest) s = (Inr ack, rest, s')
            \<and> battery_voltage s' \<noteq> None"
proof -
  obtain r tr' s' where sa: "send_and_ack mt data k timeout (Some ack # rest) s = (r, tr', s')"
    by (cases "send_and_ack mt data k timeout (Some ack # rest) s")
  from send_and_ack_outcome [OF assms(1,2) sa] obtain r4 s4 where
    l: "ack_loop (new_closure (message_received s)) timeout (perf_counter s (clock_reads s)) 0
       (Some ack # rest) (armed mt data k s) = (r4, tr', s4)" and
    r: "r = (case r4 of Inl e \<Rightarrow> Inl e | Inr None \<Rightarrow> Inl (AckTimeout k timeout)
          | Inr (Some ack_msg) \<Rightarrow> Inr ack_msg)"
    by blast
  have bv: "battery_voltage s' \<noteq> None"
    using send_and_ack_frame(6) [OF assms(1,2) sa] assms(5) by blast
  have own: "message_received (armed mt data k s)
      = message_received s @ [AckObserver (new_closure (message_received s)) k]"
    by (simp add: armed_fields ack_observer_def)
  have low: "\<forall>cb\<in>set (message_received s). closure_id cb < new_closure (message_received s)"
    using new_closure_fresh by blast
  have bva: "battery_voltage (armed mt data k s) \<noteq> None"
    using assms(5) by (simp add: armed_fields)
  have cell: "cells s1 (new_closure (message_received s)) = Some ack"
    if "wait_for_message t kk (Some ack) (armed mt data k s) = (Inr fm, s1)" for t kk fm s1
    using ack_cell_after_wait [OF own low armed_fields(3) that] assms(4) by simp
  have ne: "ack \<noteq> []"
    using assms(4) by (simp add: has_kind_iff)
  from l have "r4 = Inr (Some ack) \<and> tr' = rest"
  proof (cases rule: ack_loop_cases)
    case expired
    with assms(1) show ?thesis by simp
  next
    case (failed e)
    with wait_for_message_well_formed [OF assms(3) bva, of "timeout - 0" MessageType_None]
    show ?thesis by auto
  next
    case (silent fm)
    from silent(2) have "wait_for_message (timeout - 0) MessageType_None (Some ack)
        (armed mt data k s) = (Inr fm, s4)"
      by simp
    from wait_for_message_delivers [OF this] silent(3) show ?thesis
      by (simp add: falsy_def)
  next
    case (acked fm)
    from acked(2) have "wait_for_message (timeout - 0) MessageType_None (Some ack)
        (armed mt data k s) = (Inr fm, s4)"
      by simp
    from cell [OF this] acked(5,6) show ?thesis
      by simp
  next
    case (again fm s1)
    from again(2) have "wait_for_message (timeout - 0) MessageType_None (Some ack)
        (armed mt data k s) = (Inr fm, s1)"
      by simp
    from cell [OF this] again(4) ne show ?thesis
      by (simp add: falsy_def)
  qed
  with r sa bv show ?thesis
    by simp
qed

lemma well_formed_acks: "well_formed [6]" "well_formed [8]"
  by (simp_all add: well_formed_def MessageType_of_def MessageType_members_def)

lemma bulk_loop_step:
  assumes "0 < remainingSize"
    and "send_and_ack BulkData
         (int (min remainingSize 16) # integer_to_bytes (int offset) 2
            @ take (min remainingSize 16) (drop offset data))
         BulkDataAck timeout tr s = (Inr ack, tr1, s1)"
  shows "bulk_loop (PyList data) timeout remainingSize offset tr s =
     bulk_loop (PyList data) timeout (remainingSize - min remainingSize 16)
         (offset + min remainingSize 16) tr1 s1"
  using assms
  by (subst bulk_loop.simps)
    (simp add: PIXELS_MESSAGE_BULK_DATA_SIZE_def Let_def list_plus_slice)

lemma bulk_loop_acked:
  assumes "list_all is_byte data" "0 \<le> timeout" "battery_voltage s \<noteq> None"
  shows "\<exists>s'. bulk_loop (PyList data) timeout remainingSize offset
             (replicate ((remainingSize + 15) div 16) (Some [8]) @ rest) s = (Inr (), rest, s')"
  using assms(3)
proof (induction remainingSize arbitrary: offset s rule: less_induct)
  case (less remainingSize)
  show ?case
  proof (cases "remainingSize = 0")
    case True
    then show ?thesis
      by (subst bulk_loop.simps) simp
  next
    case False
    let ?size = "min remainingSize 16"
    let ?req = "int ?size # integer_to_bytes (int offset) 2 @ take ?size (drop offset data)"
    have n: "(remainingSize + 15) div 16 = Suc ((remainingSize - ?size + 15) div 16)"
      using False by (cases "remainingSize \<le> 16") auto
    have "list_all is_byte (take ?size (drop offset data))"
      using assms(1) unfolding list_all_iff
      by (meson in_set_dropD in_set_takeD)
    then have bytes: "list_all is_byte ?req"
      using integer_to_bytes_bytes [of "int offset"] by (simp add: is_byte_def)
    from send_and_ack_acked [OF assms(2) bytes well_formed_acks(2) _ less.prems,
        where k = BulkDataAck and mt = BulkData
          and rest = "replicate ((remainingSize - ?size + 15) div 16) (Some [8]) @ rest"]
    obtain s1 where
      sa: "send_and_ack BulkData ?req BulkDataAck timeout
             (Some [8] # replicate ((remainingSize - ?size + 15) div 16) (Some [8]) @ rest) s
           = (Inr [8], replicate ((remainingSize - ?size + 15) div 16) (Some [8]) @ rest, s1)"
      and bv: "battery_voltage s1 \<noteq> None"
      by (auto simp: has_kind_def)
    have lt: "remainingSize - ?size < remainingSize"
      using False by simp
    from less.IH [OF lt bv, of "offset + ?size"] obtain s' where
      "bulk_loop (PyList data) timeout (remainingSize - ?size) (offset + ?size)
         (replicate ((remainingSize - ?size + 15) div 16) (Some [8]) @ rest) s1 = (Inr (), rest, s')"
      by blast
    then show ?thesis
      unfolding n replicate_Suc append_Cons
      using bulk_loop_step [OF _ sa] False by simp
  qed
qed

lemma upload_bulk_data_acked:
  assumes "data \<noteq> []" "list_all is_byte data" "0 \<le> timeout" "battery_voltage s \<noteq> None"
  shows "\<exists>s'. upload_bulk_data (PyList data) timeout
             (Some [6] # replicate ((length data + 15) div 16) (Some [8]) @ rest) s
           = (Inr (), rest, s')"
proof -
  from send_and_ack_acked [OF assms(3) integer_to_bytes_bytes [of "int (length data)"]
        well_formed_acks(1) _ assms(4),
      where k = BulkSetupAck and mt = BulkSetup
        and rest = "replicate ((length data + 15) div 16) (Some [8]) @ rest"]
  obtain s1 where
    sa: "send_and_ack BulkSetup (integer_to_bytes (int (length data)) 2) BulkSetupAck timeout
           (Some [6] # replicate ((length data + 15) div 16) (Some [8]) @ rest) s
         = (Inr [6], replicate ((length data + 15) div 16) (Some [8]) @ rest, s1)"
    and bv: "battery_voltage s1 \<noteq> None"
    by (auto simp: has_kind_def)
  have ne: "items (PyList data) \<noteq> []"
    using assms(1) by simp
  from bulk_loop_acked [OF assms(2,3) bv, where remainingSize = "length data" and offset = 0
      and rest = rest]
  show ?thesis
    unfolding upload_bulk_data_unfold [OF ne assms(3)] using sa by simp
qed

lemma no_bulk_data_in_wait:
  assumes "list_all wait_action ext"
  shows "filter (has_kind BulkData) (written ext) = []"
proof -
  have "list_all (\<lambda>d. \<not> has_kind BulkData d) (written ext)"
    using written_wait_actions [OF assms]
    by (rule list.pred_mono_strong) (auto simp: has_kind_def)
  then show ?thesis
    by (simp add: filter_empty_conv list_all_iff)
qed


lemma upload_bytes_acked:
  assumes "b \<noteq> []" "0 \<le> timeout" "battery_voltage s \<noteq> None"
  shows "\<exists>s'. upload_bulk_data (PyBytes b) timeout (Some [6] # rest) s = (Inl TypeError, rest, s')
           \<and> bulk_messages (new_actions s s')
               = [MessageType_value BulkSetup # integer_to_bytes (int (length b)) 2]"
proof -
  let ?request = "integer_to_bytes (int (length b)) 2"
  from send_and_ack_acked [OF assms(2) integer_to_bytes_bytes [of "int (length b)"]
        well_formed_acks(1) _ assms(3),
      where k = BulkSetupAck and mt = BulkSetup and rest = rest]
  obtain s1 where
    sa: "send_and_ack BulkSetup ?request BulkSetupAck timeout (Some [6] # rest) s
         = (Inr [6], rest, s1)"
    by (auto simp: has_kind_def)
  have ne: "items (PyBytes b) \<noteq> []" and len: "0 < length b"
    using assms(1) by simp_all
  have up: "upload_bulk_data (PyBytes b) timeout (Some [6] # rest) s = (Inl TypeError, rest, s1)"
    unfolding upload_bulk_data_unfold [OF ne assms(2)]
    using sa bulk_loop_bytes [OF len] by simp
  from send_and_ack_frame(2) [OF assms(2) integer_to_bytes_bytes sa] obtain ext where
    h: "history s1 = history s
            @ ([Written (MessageType_value BulkSetup # ?request), Attached (ack_observer BulkSetupAck s)]
            @ ext @ [Detached (ack_observer BulkSetupAck s)])" and wa: "list_all wait_action ext"
    by auto
  have "bulk_messages ([Written (MessageType_value BulkSetup # ?request),
        Attached (ack_observer BulkSetupAck s)] @ ext @ [Detached (ack_observer BulkSetupAck s)])
      = [MessageType_value BulkSetup # ?request]"
    using bulk_messages_request [OF wa, of "MessageType_value BulkSetup # ?request"]
    by (simp add: has_kind_def)
  then have "bulk_messages (new_actions s s1) = [MessageType_value BulkSetup # ?request]"
    unfolding new_actions_append [OF h] .
  with up show ?thesis
    by simp
qed

lemma ack_loop_error_cause:
  assumes "battery_voltage s \<noteq> None"
    and "ack_loop i timeout t0 elapsed tr s = (Inl e, tr', s')"
  shows "\<exists>pre m. tr = pre @ Some m # tr' \<and> \<not> well_formed m"
  using assms
proof (induction tr arbitrary: elapsed s)
  case Nil
  from Nil.prems(2) show ?case
  proof (cases rule: ack_loop_cases)
    case (failed e')
    then show ?thesis by (simp add: wait_for_message_None)
  next
    case (again fm s1)
    from wait_truthy_arrival [OF again(2,3)] show ?thesis
      by blast
  qed simp_all
next
  case (Cons a rest)
  from Cons.prems(2) show ?case
  proof (cases rule: ack_loop_cases)
    case (failed e')
    show ?thesis
    proof (cases a)
      case None
      with failed show ?thesis by (simp add: wait_for_message_None)
    next
      case (Some m)
      have "\<not> well_formed m"
      proof
        assume "well_formed m"
        from wait_for_message_well_formed [OF this Cons.prems(1), of "timeout - elapsed" MessageType_None]
          failed(2) Some show False
          by auto
      qed
      moreover have "a # rest = [] @ Some m # tr'"
        using failed(4) Some by simp
      ultimately show ?thesis
        by blast
    qed
  next
    case (again fm s1)
    have k: "keeps s s1"
      using again(2) by (rule wait_for_message_keeps)
    then have bv: "battery_voltage (s1\<lparr>clock_reads := Suc (clock_reads s1)\<rparr>) \<noteq> None"
      using Cons.prems(1) by (auto simp: keeps_def)
    have rec: "ack_loop i timeout t0 (perf_counter s1 (clock_reads s1) - t0) rest
        (s1\<lparr>clock_reads := Suc (clock_reads s1)\<rparr>) = (Inl e, tr', s')"
      using again(5) by simp
    from Cons.IH [OF bv rec] obtain pre m where "rest = pre @ Some m # tr'" "\<not> well_formed m"
      by blast
    then have "a # rest = (a # pre) @ Some m # tr'" "\<not> well_formed m"
      by simp_all
    then show ?thesis
      by blast
  qed simp_all
qed

lemma send_and_ack_error_cause:
  assumes "0 \<le> timeout" "list_all is_byte data" "battery_voltage s \<noteq> None"
    and "send_and_ack mt data k timeout tr s = (Inl e, tr', s')"
  shows "e = AckTimeout k timeout \<or> (\<exists>pre m. tr = pre @ Some m # tr' \<and> \<not> well_formed m)"
proof -
  from send_and_ack_outcome [OF assms(1,2,4)] obtain r4 s4 where
    l: "ack_loop (new_closure (message_received s)) timeout (perf_counter s (clock_reads s)) 0
       tr (armed mt data k s) = (r4, tr', s4)" and
    r: "Inl e = (case r4 of Inl e \<Rightarrow> Inl e | Inr None \<Rightarrow> Inl (AckTimeout k timeout)
          | Inr (Some ack_msg) \<Rightarrow> Inr ack_msg)"
    by blast
  have bva: "battery_voltage (armed mt data k s) \<noteq> None"
    using assms(3) by (simp add: armed_fields)
  show ?thesis
  proof (cases r4)
    case (Inl e')
    with r have "e' = e" by simp
    with l Inl ack_loop_error_cause [OF bva, of _ timeout _ 0 tr e tr' s4] show ?thesis
      by simp
  next
    case (Inr v)
    with r show ?thesis
      by (cases v) simp_all
  qed
qed

lemma send_and_ack_delivering_None:
  "send_and_ack_delivering None mt data k timeout tr s = send_and_ack mt data k timeout tr s"
  by (simp add: send_and_ack_delivering_def send_and_ack_def send_delivering_def)

lemma handed_over_prefix: "handed_over (pre @ tr') tr' = pre"
  by (simp add: handed_over_def)

lemma new_actions_self: "new_actions s s = []"
  by (simp add: new_actions_def)

lemma setup_history_no_chunk:
  assumes "0 \<le> timeout"
    and "send_and_ack BulkSetup (integer_to_bytes n 2) BulkSetupAck timeout tr s = (r, tr', s')"
  shows "filter (has_kind BulkData) (written (new_actions s s')) = []"
proof -
  from send_and_ack_frame(2) [OF assms(1) integer_to_bytes_bytes assms(2)] obtain ext where
    h: "history s' = history s
            @ ([Written (MessageType_value BulkSetup # integer_to_bytes n 2),
                Attached (ack_observer BulkSetupAck s)]
            @ ext @ [Detached (ack_observer BulkSetupAck s)])" and wa: "list_all wait_action ext"
    by auto
  show ?thesis
    unfolding new_actions_append [OF h]
    using no_bulk_data_in_wait [OF wa] by (simp add: written_append has_kind_def)
qed

section \<open>The claims\<close>

text \<open>
  C7. A dispatched \<^verbatim>\<open>State\<close> message with state 1 and face \<open>f\<close> sets \<open>face_up\<close> to
  \<open>f + 1\<close>, and any other state value sets it to 0; \<^verbatim>\<open>face_up_changed\<close> fires with the
  new value exactly when it differs from the current one, so that dispatching the same
  message a second time fires nothing.
\<close>

theorem face_up_changed_only_on_change:
  "fst (process_message [MessageType_value State, state, face] s) = Inr ()
   \<and> face_up (snd (process_message [MessageType_value State, state, face] s))
       = (if state = 1 then face + 1 else 0)
   \<and> face_up_events
        (new_actions s (snd (process_message [MessageType_value State, state, face] s)))
       = (if face_up s = (if state = 1 then face + 1 else 0) then []
          else [if state = 1 then face + 1 else 0])
   \<and> face_up_events
        (new_actions (snd (process_message [MessageType_value State, state, face] s))
           (snd (process_message [MessageType_value State, state, face]
                  (snd (process_message [MessageType_value State, state, face] s)))))
       = []"
proof -
  define new where "new = (if state = 1 then face + 1 else 0)"
  have one: "fst (process_message [MessageType_value State, state, face] s0) = Inr ()
      \<and> face_up (snd (process_message [MessageType_value State, state, face] s0)) = new
      \<and> face_up_events
           (new_actions s0 (snd (process_message [MessageType_value State, state, face] s0)))
          = (if face_up s0 = new then [] else [new])" for s0
  proof -
    obtain c where p: "process_message [MessageType_value State, state, face] s0 =
       (Inr (), (record_action (Published [MessageType_value State, state, face])
                   (update_state state face s0))\<lparr>cells := c\<rparr>)"
      using state_dispatch by blast
    have h: "history (snd (process_message [MessageType_value State, state, face] s0)) =
        history s0 @ ((if face_up s0 = new then [] else [FaceUpChanged new])
                       @ [Published [MessageType_value State, state, face]])"
      using p by (simp add: update_state_def record_action_def Let_def new_def)
    show ?thesis
      unfolding new_actions_append [OF h]
      using p by (simp add: update_state_def record_action_def Let_def new_def)
  qed
  show ?thesis
    using one [of s] one [of "snd (process_message [MessageType_value State, state, face] s)"]
    unfolding new_def by simp
qed

text \<open>
  The scenario of the spec: on a session whose \<open>face_up\<close> is 0, state 1 with face 3
  fires the event once, with value 4, and the same message again fires nothing.
\<close>

theorem face_up_changed_example:
  "face_up (snd (process_message [3, 1, 3] ready_session)) = 4
   \<and> face_up_events (new_actions ready_session (snd (process_message [3, 1, 3] ready_session)))
       = [4]
   \<and> face_up_events
        (new_actions (snd (process_message [3, 1, 3] ready_session))
           (snd (process_message [3, 1, 3] (snd (process_message [3, 1, 3] ready_session)))))
       = []"
  using face_up_changed_only_on_change [of 1 3 ready_session]
  by (simp add: ready_session_def new_session_def)


text \<open>
  C9. On every exit path of \<^verbatim>\<open>wait_for_message\<close> and of \<^verbatim>\<open>_send_and_ack\<close> (return,
  timeout, or an exception passing through) the observer the call attached to
  \<^verbatim>\<open>message_received\<close> is detached, as the last thing the call does, and the callback
  list is exactly what it was before the call. A \<^verbatim>\<open>_send_and_ack\<close> that fails before
  attaching anything (negative timeout, request bytes out of range) leaves the session
  untouched.
\<close>

theorem observers_detached_on_every_exit:
  "message_received (snd (wait_for_message timeout msg_type arrival s)) = message_received s
   \<and> last (history (snd (wait_for_message timeout msg_type arrival s)))
       = Detached (WaitObserver (new_closure (message_received s)))
   \<and> message_received (snd (snd (send_and_ack msg_type msg_data ack_type timeout tr s)))
       = message_received s
   \<and> (if 0 \<le> timeout \<and> list_all is_byte msg_data
       then last (history (snd (snd (send_and_ack msg_type msg_data ack_type timeout tr s))))
              = Detached (ack_observer ack_type s)
       else snd (snd (send_and_ack msg_type msg_data ack_type timeout tr s)) = s)"
proof -
  have w1: "message_received (snd (wait_for_message timeout msg_type arrival s)) = message_received s"
    using wait_for_message_keeps [of timeout msg_type arrival s
        "fst (wait_for_message timeout msg_type arrival s)"
        "snd (wait_for_message timeout msg_type arrival s)"]
    by (simp add: keeps_def)
  have w2: "last (history (snd (wait_for_message timeout msg_type arrival s)))
       = Detached (WaitObserver (new_closure (message_received s)))"
    by (subst wait_for_message_last) simp
  obtain r tr' s' where sa: "send_and_ack msg_type msg_data ack_type timeout tr s = (r, tr', s')"
    by (cases "send_and_ack msg_type msg_data ack_type timeout tr s")
  have s1: "message_received s' = message_received s"
  proof (cases "0 \<le> timeout \<and> list_all is_byte msg_data")
    case True
    then show ?thesis
      using send_and_ack_frame(1) [OF _ _ sa] by simp
  next
    case False
    then show ?thesis
      using sa send_and_ack_rejected [where timeout = timeout and mt = msg_type and data = msg_data and k = ack_type and tr = tr and s = s] by auto
  qed
  have s2: "last (history s') = Detached (ack_observer ack_type s)"
    if "0 \<le> timeout \<and> list_all is_byte msg_data"
  proof -
    from that send_and_ack_frame(2) [OF _ _ sa] obtain ext where
      "history s' = history s
            @ [Written (MessageType_value msg_type # msg_data), Attached (ack_observer ack_type s)]
            @ ext @ [Detached (ack_observer ack_type s)]"
      by blast
    then show ?thesis
      by simp
  qed
  have s3: "s' = s" if "\<not> (0 \<le> timeout \<and> list_all is_byte msg_data)"
    using that sa send_and_ack_rejected [where timeout = timeout and mt = msg_type and data = msg_data and k = ack_type and tr = tr and s = s] by auto
  show ?thesis
    using w1 w2 s1 s2 s3 by (simp add: sa)
qed

text \<open>An exception path: a malformed \<^verbatim>\<open>State\<close> notification arrives during the wait.\<close>

theorem observers_detached_after_exception:
  "fst (send_and_ack WhoAreYou [] IAmADie 1 [Some [3, 1, 3, 0]] ready_session) = Inl TypeError
   \<and> message_received (snd (snd (send_and_ack WhoAreYou [] IAmADie 1 [Some [3, 1, 3, 0]] ready_session)))
       = message_received ready_session
   \<and> last (history (snd (snd (send_and_ack WhoAreYou [] IAmADie 1 [Some [3, 1, 3, 0]] ready_session))))
       = Detached (ack_observer IAmADie ready_session)"
proof -
  have "fst (send_and_ack WhoAreYou [] IAmADie 1 [Some [3, 1, 3, 0]] ready_session) = Inl TypeError"
    by code_simp
  then show ?thesis
    using observers_detached_on_every_exit
      [of 1 WhoAreYou None ready_session "[]" IAmADie "[Some [3, 1, 3, 0]]"]
    by simp
qed

text \<open>
  C10. The \<^verbatim>\<open>msg_type\<close> argument of \<^verbatim>\<open>wait_for_message\<close> is never read: any two values
  give the same result. The call returns \<^verbatim>\<open>None\<close> when nothing arrives, and otherwise
  the message that arrived, whatever its kind (or the exception its dispatch raised; none
  is raised for a well-formed message on a constructed session).
\<close>

theorem wait_for_message_ignores_msg_type:
  "wait_for_message timeout k1 arrival s = wait_for_message timeout k2 arrival s
   \<and> fst (wait_for_message timeout k1 None s) = Inr None
   \<and> (fst (wait_for_message timeout k1 (Some m) s) = Inr (Some m)
        \<or> (\<exists>e. fst (wait_for_message timeout k1 (Some m) s) = Inl e))
   \<and> (well_formed m \<and> battery_voltage s \<noteq> None
        \<longrightarrow> fst (wait_for_message timeout k1 (Some m) s) = Inr (Some m))"
proof -
  have a: "wait_for_message timeout k1 arrival s = wait_for_message timeout k2 arrival s"
    by (simp add: wait_for_message_def)
  have b: "fst (wait_for_message timeout k1 None s) = Inr None"
    by (simp add: wait_for_message_None)
  have c: "fst (wait_for_message timeout k1 (Some m) s) = Inr (Some m)
        \<or> (\<exists>e. fst (wait_for_message timeout k1 (Some m) s) = Inl e)"
  proof (cases "wait_for_message timeout k1 (Some m) s")
    case (Pair r s')
    show ?thesis
    proof (cases r)
      case (Inl e)
      with Pair show ?thesis by simp
    next
      case (Inr fm)
      with Pair wait_for_message_delivers [of timeout k1 m s fm s'] show ?thesis by simp
    qed
  qed
  have d: "fst (wait_for_message timeout k1 (Some m) s) = Inr (Some m)"
    if "well_formed m \<and> battery_voltage s \<noteq> None"
    using that wait_for_message_well_formed [of m s timeout k1] by auto
  from a b c d show ?thesis
    by blast
qed

text \<open>
  A caller waiting for \<^verbatim>\<open>IAmADie\<close> gets the \<^verbatim>\<open>State\<close> message that arrived instead.
\<close>

theorem wait_for_message_no_filtering:
  "well_formed [3, 1, 3] \<and> battery_voltage ready_session \<noteq> None
   \<and> fst (wait_for_message 1 IAmADie (Some [3, 1, 3]) ready_session) = Inr (Some [3, 1, 3])
   \<and> wait_for_message 1 IAmADie (Some [3, 1, 3]) ready_session
       = wait_for_message 1 BatteryLevel (Some [3, 1, 3]) ready_session"
proof -
  have wf: "well_formed [3, 1, 3]"
    by (simp add: well_formed_def MessageType_of_def MessageType_members_def)
  have bv: "battery_voltage ready_session \<noteq> None"
    by (simp add: ready_session_def)
  note t = wait_for_message_ignores_msg_type
      [of 1 IAmADie "Some [3, 1, 3]" ready_session BatteryLevel "[3, 1, 3]"]
  from t have e: "wait_for_message 1 IAmADie (Some [3, 1, 3]) ready_session
       = wait_for_message 1 BatteryLevel (Some [3, 1, 3]) ready_session"
    by blast
  from t wf bv have f: "fst (wait_for_message 1 IAmADie (Some [3, 1, 3]) ready_session)
      = Inr (Some [3, 1, 3])"
    by blast
  from wf bv e f show ?thesis
    by (intro conjI)
qed

text \<open>
  C6, as stated: an inbound message whose first byte is no \<^verbatim>\<open>MessageType\<close> value makes
  dispatch report a decode error and abort. The code has no such error: with tracing off
  (the default) the byte 200 is dispatched like any kind without a handler, and the
  message is published.
\<close>

theorem unknown_kind_not_reported:
  "MessageType_of 200 = None
   \<and> fst (process_message [200] ready_session) = Inr ()
   \<and> history (snd (process_message [200] ready_session)) = [Published [200]]"
  by code_simp

text \<open>
  C6, amended. For an inbound message whose first byte is no \<^verbatim>\<open>MessageType\<close> value:
  with tracing off, dispatch raises nothing, runs no handler (device type, face and
  battery voltage stay as they are, nothing is written) and publishes the message on
  \<^verbatim>\<open>message_received\<close>; with tracing on, printing the kind's name raises
  \<^verbatim>\<open>ValueError\<close> and the message is not published. Either way the session is left as
  usable as before.
\<close>

theorem unknown_kind_published:
  assumes "MessageType_of k = None"
  shows "if tracing s then process_message (k # payload) s = (Inl ValueError, s)
         else fst (process_message (k # payload) s) = Inr ()
           \<and> new_actions s (snd (process_message (k # payload) s)) = [Published (k # payload)]
           \<and> dtype (snd (process_message (k # payload) s)) = dtype s
           \<and> face_up (snd (process_message (k # payload) s)) = face_up s
           \<and> battery_voltage (snd (process_message (k # payload) s)) = battery_voltage s
           \<and> message_received (snd (process_message (k # payload) s)) = message_received s"
proof (cases "tracing s")
  case True
  with assms show ?thesis
    by (simp add: process_message_handlers)
next
  case False
  then have p: "process_message (k # payload) s = notify (k # payload) s"
    using assms by (simp add: process_message_handlers unknown_kind_unhandled and_then_def)
  have h: "history (snd (notify (k # payload) s)) = history s @ [Published (k # payload)]"
    by (rule notify_history) simp
  show ?thesis
    using False notify_history [of "k # payload" s] new_actions_append [OF h]
    by (simp add: p)
qed

theorem unknown_kind_published_example:
  "MessageType_of 200 = None
   \<and> fst (process_message [200, 7] ready_session) = Inr ()
   \<and> new_actions ready_session (snd (process_message [200, 7] ready_session))
       = [Published [200, 7]]
   \<and> process_message [200, 7] (ready_session\<lparr>tracing := True\<rparr>)
       = (Inl ValueError, ready_session\<lparr>tracing := True\<rparr>)"
proof -
  have u: "MessageType_of 200 = None"
    by (simp add: MessageType_of_def MessageType_members_def)
  have t: "\<not> tracing ready_session"
    by (simp add: ready_session_def new_session_def)
  show ?thesis
    using u t unknown_kind_published [OF u, where s = ready_session and payload = "[7]"]
      unknown_kind_published [OF u, where s = "ready_session\<lparr>tracing := True\<rparr>" and payload = "[7]"]
    by simp
qed

text \<open>
  C8. A dispatched \<^verbatim>\<open>NotifyUser\<close> message (three bytes and UTF-8 text) whose flags do not
  permit cancellation (\<open>ok\<close> or \<open>cancel\<close> is 0) is answered with \<^verbatim>\<open>NotifyUserAck\<close>
  carrying 1, whatever \<^verbatim>\<open>_get_continue\<close> returns.
\<close>

theorem notify_user_forced_continue:
  assumes "list_all is_byte txt" "utf8_valid txt" "ok = 0 \<or> cancel = 0"
  shows "fst (notify_user (MessageType_value NotifyUser # t # ok # cancel # txt)
                (s\<lparr>get_continue := answers\<rparr>)) = Inr True
     \<and> written (new_actions (s\<lparr>get_continue := answers\<rparr>)
          (snd (process_message (MessageType_value NotifyUser # t # ok # cancel # txt)
                 (s\<lparr>get_continue := answers\<rparr>))))
        = [[MessageType_value NotifyUserAck, 1]]"
proof -
  let ?m = "MessageType_value NotifyUser # t # ok # cancel # txt"
  let ?s = "s\<lparr>get_continue := answers\<rparr>"
  let ?s1 = "record_action (Written [MessageType_value NotifyUserAck, 1])
        (?s\<lparr>prompts := Suc (prompts ?s)\<rparr>)"
  have nu: "notify_user ?m ?s = (Inr True, ?s1)"
    using notify_user_result [OF assms(1,2), of t ok cancel ?s] assms(3) by auto
  have kh: "kind_handlers (MessageType_value NotifyUser) (t # ok # cancel # txt) ?s = (Inr (), ?s1)"
    using nu by (simp add: kind_handlers_def and_then_def)
  have p: "process_message ?m ?s = notify ?m ?s1"
    by (simp only: process_message_handlers kh MessageType_of_value and_then_def)
      simp
  have h: "history (snd (process_message ?m ?s)) =
      history ?s @ [Written [MessageType_value NotifyUserAck, 1], Published ?m]"
    unfolding p using notify_history(2) [of ?m ?s1] by (simp add: record_action_fields)
  show ?thesis
    unfolding new_actions_append [OF h] using nu by simp
qed

text \<open>With \<open>ok\<close> = 0 the reply is 1 whether the user presses Enter or another key.\<close>

theorem notify_user_forced_continue_example:
  "list_all is_byte [79, 75] \<and> utf8_valid [79, 75] \<and> ((0::int) = 0 \<or> (1::int) = 0)
   \<and> written (new_actions (ready_session\<lparr>get_continue := other_key_pressed\<rparr>)
          (snd (process_message [31, 5, 0, 1, 79, 75]
                 (ready_session\<lparr>get_continue := other_key_pressed\<rparr>))))
        = [[32, 1]]
   \<and> written (new_actions (ready_session\<lparr>get_continue := enter_pressed\<rparr>)
          (snd (process_message [31, 5, 0, 1, 79, 75]
                 (ready_session\<lparr>get_continue := enter_pressed\<rparr>))))
        = [[32, 1]]"
proof -
  have a: "list_all is_byte [79, 75]" "utf8_valid [79, 75]" "(0::int) = 0 \<or> (1::int) = 0"
    by (simp_all add: is_byte_def)
  show ?thesis
    using a notify_user_forced_continue [OF a, where t = 5 and s = ready_session and answers = other_key_pressed]
      notify_user_forced_continue [OF a, where t = 5 and s = ready_session and answers = enter_pressed]
    by simp
qed




text \<open>
  C2, as stated: when the \<^verbatim>\<open>BatteryLevel\<close> reply does not arrive within its wait,
  construction fails and the transport is torn down. The code does not look at what that
  wait brought: with \<^verbatim>\<open>IAmADie\<close> received and nothing after it, construction succeeds,
  the battery voltage is still \<^verbatim>\<open>-1\<close> and the device stays connected.
\<close>

theorem construction_without_battery_reply:
  "fst (PixelLink_init True False steady_clock other_key_pressed [Some [2, 1]]) = Inr ()
   \<and> battery_voltage
        (snd (snd (PixelLink_init True False steady_clock other_key_pressed [Some [2, 1]])))
       = Some Sentinel
   \<and> Disconnected \<notin> set (history
        (snd (snd (PixelLink_init True False steady_clock other_key_pressed [Some [2, 1]]))))"
  by code_simp

text \<open>
  C2, amended. Construction either returns a session whose device type was identified
  (6 or 20 faces) during the first wait, with the battery voltage assigned and the
  device connected, or it disconnects the device as its last action and raises. The
  \<^verbatim>\<open>BatteryLevel\<close> wait only gives the reply time to arrive: when nothing arrives during
  it, construction still succeeds and the battery voltage stays at \<^verbatim>\<open>-1\<close>.
\<close>

theorem construction_identifies_or_disconnects:
  "(case PixelLink_init service_found trace_flag clock answers tr of
      (Inr u, tr', s) \<Rightarrow>
        (dtype s = Some DiceType_6 \<or> dtype s = Some DiceType_20)
        \<and> battery_voltage s \<noteq> None \<and> Disconnected \<notin> set (history s)
    | (Inl e, tr', s) \<Rightarrow> history s \<noteq> [] \<and> last (history s) = Disconnected)
   \<and> (service_found \<and> (d = 1 \<or> d = 2) \<longrightarrow>
        fst (PixelLink_init service_found trace_flag clock answers
               (Some (2 # d # xs) # None # rest)) = Inr ()
        \<and> battery_voltage (snd (snd (PixelLink_init service_found trace_flag clock answers
               (Some (2 # d # xs) # None # rest)))) = Some Sentinel)"
proof -
  obtain r tr' s where i: "identify service_found tr (new_session trace_flag clock answers)
      = (r, tr', s)"
    by (cases "identify service_found tr (new_session trace_flag clock answers)")
  have a: "(case PixelLink_init service_found trace_flag clock answers tr of
      (Inr u, tr', s) \<Rightarrow>
        (dtype s = Some DiceType_6 \<or> dtype s = Some DiceType_20)
        \<and> battery_voltage s \<noteq> None \<and> Disconnected \<notin> set (history s)
    | (Inl e, tr', s) \<Rightarrow> history s \<noteq> [] \<and> last (history s) = Disconnected)"
  proof (cases r)
    case (Inl e)
    then show ?thesis
      by (simp add: PixelLink_init_def i record_action_fields)
  next
    case (Inr u)
    with identify_ready [OF i [unfolded Inr]] show ?thesis
      by (simp add: PixelLink_init_def i)
  qed
  have b: "fst (PixelLink_init service_found trace_flag clock answers
               (Some (2 # d # xs) # None # rest)) = Inr ()
        \<and> battery_voltage (snd (snd (PixelLink_init service_found trace_flag clock answers
               (Some (2 # d # xs) # None # rest)))) = Some Sentinel"
    if "service_found \<and> (d = 1 \<or> d = 2)"
  proof -
    from that identify_without_battery_reply [of service_found d xs rest trace_flag clock answers]
    obtain s' where "identify service_found (Some (2 # d # xs) # None # rest)
                 (new_session trace_flag clock answers) = (Inr (), rest, s')"
      "battery_voltage s' = Some Sentinel"
      by blast
    then show ?thesis
      by (simp add: PixelLink_init_def)
  qed
  from a b show ?thesis
    by blast
qed

theorem construction_identifies_or_disconnects_example:
  "fst (PixelLink_init True False steady_clock other_key_pressed [Some [2, 2], None]) = Inr ()
   \<and> battery_voltage
        (snd (snd (PixelLink_init True False steady_clock other_key_pressed [Some [2, 2], None])))
       = Some Sentinel
   \<and> dtype (snd (snd (PixelLink_init True False steady_clock other_key_pressed [Some [2, 2], None])))
       = Some DiceType_20"
proof -
  have d: "dtype (snd (snd (PixelLink_init True False steady_clock other_key_pressed
      [Some [2, 2], None]))) = Some DiceType_20"
    by code_simp
  from construction_identifies_or_disconnects
    [of True False steady_clock other_key_pressed "[Some [2, 2], None]" 2 "[]" "[]"] d
  show ?thesis
    by simp
qed

text \<open>
  C1. \<^verbatim>\<open>_send_and_ack\<close> writes the request before it attaches its observer, and the
  transport library can hand a queued notification to the delegate during that write.
  Here the die's \<^verbatim>\<open>BulkSetupAck\<close> is handed over during the write of \<^verbatim>\<open>BulkSetup\<close>:
  it is published while the observer is not attached yet, nothing else arrives, and the
  call raises the acknowledgement timeout although the acknowledgement came after the
  send. The same acknowledgement handed over by the first wait is returned.
\<close>

theorem ack_during_write_is_missed:
  "fst (send_and_ack_delivering (Some [6]) BulkSetup [40, 0] BulkSetupAck 1 [None] ready_session)
     = Inl (AckTimeout BulkSetupAck 1)
   \<and> take 3 (history (snd (snd
        (send_and_ack_delivering (Some [6]) BulkSetup [40, 0] BulkSetupAck 1 [None] ready_session))))
     = [Written [5, 40, 0], Published [6], Attached (AckObserver 1 BulkSetupAck)]
   \<and> fst (send_and_ack_delivering None BulkSetup [40, 0] BulkSetupAck 1 [Some [6]] ready_session)
     = Inr [6]"
  by code_simp

text \<open>
  C3. \<^verbatim>\<open>_upload_bulk_data\<close> takes its payload as \<^verbatim>\<open>bytes\<close>, and the chunk argument
  \<^verbatim>\<open>header + data[offset:offset+size]\<close> adds a slice of it to a list, which raises
  \<^verbatim>\<open>TypeError\<close>. For the 40-byte payload of the spec's scenario, with every request
  acknowledged by the next notification, the upload sends the \<^verbatim>\<open>BulkSetup\<close> message,
  takes its acknowledgement and raises before the first chunk: none of the three
  \<^verbatim>\<open>BulkData\<close> messages is sent.
\<close>

theorem upload_of_bytes_raises_type_error:
  "fst (upload_bulk_data forty_bytes 1 [Some [6], Some [8], Some [8], Some [8]] ready_session)
     = Inl TypeError
   \<and> fst (snd (upload_bulk_data forty_bytes 1 [Some [6], Some [8], Some [8], Some [8]]
                  ready_session))
     = [Some [8], Some [8], Some [8]]
   \<and> bulk_messages (new_actions ready_session
         (snd (snd (upload_bulk_data forty_bytes 1 [Some [6], Some [8], Some [8], Some [8]]
                      ready_session))))
     = [[5, 40, 0]]"
proof -
  have bv: "battery_voltage ready_session \<noteq> None"
    by (simp add: ready_session_def)
  have req: "MessageType_value BulkSetup # integer_to_bytes (int (length (map int [0..<40]))) 2
      = [5, 40, 0]"
    by (simp add: integer_to_bytes_2)
  from upload_bytes_acked [of "map int [0..<40]" 1 ready_session "[Some [8], Some [8], Some [8]]"] bv
  show ?thesis
    unfolding req forty_bytes_def by auto
qed

text \<open>
  Whatever the die answers, an upload of a \<^verbatim>\<open>bytes\<close> payload raises and writes no
  \<^verbatim>\<open>BulkData\<close> message.
\<close>

theorem upload_of_bytes_sends_no_chunk:
  "(\<exists>e. fst (upload_bulk_data (PyBytes b) timeout tr s) = Inl e)
   \<and> filter (has_kind BulkData)
        (written (new_actions s (snd (snd (upload_bulk_data (PyBytes b) timeout tr s))))) = []"
proof (cases "b \<noteq> [] \<and> 0 \<le> timeout")
  case False
  then have "upload_bulk_data (PyBytes b) timeout tr s = (Inl AssertionError, tr, s)"
    using upload_bulk_data_rejected [of "PyBytes b" timeout tr s] by auto
  then show ?thesis
    by (simp add: new_actions_self)
next
  case True
  then have ne: "items (PyBytes b) \<noteq> []" and t: "0 \<le> timeout" and len: "0 < length b"
    by simp_all
  obtain r1 tr1 s1 where sa: "send_and_ack BulkSetup (integer_to_bytes (int (length b)) 2)
                BulkSetupAck timeout tr s = (r1, tr1, s1)"
    by (cases "send_and_ack BulkSetup (integer_to_bytes (int (length b)) 2)
                BulkSetupAck timeout tr s")
  have "\<exists>e. upload_bulk_data (PyBytes b) timeout tr s = (Inl e, tr1, s1)"
    unfolding upload_bulk_data_unfold [OF ne t]
    using sa bulk_loop_bytes [OF len] by (cases r1) simp_all
  with setup_history_no_chunk [OF t sa] show ?thesis
    by auto
qed

text \<open>
  With the payload given as a list of integers the concatenation is defined. An upload of
  such a payload, non-empty and of length \<open>L\<close> (at most 65535, so that it fits the two
  length bytes), that succeeds has sent, apart from replies to \<^verbatim>\<open>NotifyUser\<close>, exactly
  one \<^verbatim>\<open>BulkSetup\<close> message carrying \<open>L\<close> in two bytes and then \<open>\<lceil>L / 16\<rceil>\<close>
  \<^verbatim>\<open>BulkData\<close> messages; chunk \<open>n\<close> is the size \<open>min (L - 16 n) 16\<close>, the two bytes of
  the offset \<open>16 n\<close> and the items of the payload from that offset. The offsets start at
  0, each is the previous one plus the previous size, and the last offset plus the last
  size is \<open>L\<close>.
\<close>

theorem upload_of_list_sends_setup_then_chunks:
  assumes "data \<noteq> []" "length data \<le> 65535"
    and "fst (upload_bulk_data (PyList data) timeout tr s) = Inr ()"
  shows "bulk_messages (new_actions s (snd (snd (upload_bulk_data (PyList data) timeout tr s))))
           = spec_bulk_messages data
     \<and> length (filter (has_kind BulkSetup) (spec_bulk_messages data)) = 1
     \<and> length (filter (has_kind BulkData) (spec_bulk_messages data))
         = nat \<lceil>real (length data) / 16\<rceil>
     \<and> (\<forall>n < (length data + 15) div 16.
           16 * n + min (length data - 16 * n) 16
             = (if Suc n < (length data + 15) div 16 then 16 * Suc n else length data))"
proof -
  have ne: "items (PyList data) \<noteq> []"
    using assms(1) by simp
  have t: "0 \<le> timeout"
  proof (rule ccontr)
    assume "\<not> 0 \<le> timeout"
    then have "upload_bulk_data (PyList data) timeout tr s = (Inl AssertionError, tr, s)"
      by (simp add: upload_bulk_data_rejected)
    with assms(3) show False
      by simp
  qed
  obtain r1 tr1 s1 where sa: "send_and_ack BulkSetup (integer_to_bytes (int (length data)) 2)
                BulkSetupAck timeout tr s = (r1, tr1, s1)"
    by (cases "send_and_ack BulkSetup (integer_to_bytes (int (length data)) 2)
                BulkSetupAck timeout tr s")
  obtain r tr' s' where up: "upload_bulk_data (PyList data) timeout tr s = (r, tr', s')"
    by (cases "upload_bulk_data (PyList data) timeout tr s")
  from assms(3) up have r: "r = Inr ()"
    by simp
  from up sa r obtain ack where r1: "r1 = Inr ack" and
    bl: "bulk_loop (PyList data) timeout (length data) 0 tr1 s1 = (Inr (), tr', s')"
    unfolding upload_bulk_data_unfold [OF ne t] by (cases r1) auto
  from send_and_ack_frame(2) [OF t integer_to_bytes_bytes sa] obtain ext1 where
    h1: "history s1 = history s
            @ ([Written (MessageType_value BulkSetup # integer_to_bytes (int (length data)) 2),
                Attached (ack_observer BulkSetupAck s)]
            @ ext1 @ [Detached (ack_observer BulkSetupAck s)])" and wa: "list_all wait_action ext1"
    by auto
  have b1: "bulk_messages ([Written (MessageType_value BulkSetup # integer_to_bytes (int (length data)) 2),
                Attached (ack_observer BulkSetupAck s)]
            @ ext1 @ [Detached (ack_observer BulkSetupAck s)]) = [spec_setup_message data]"
    using bulk_messages_request [OF wa, of "spec_setup_message data"]
    unfolding setup_request [OF assms(2)] by (simp add: has_kind_def spec_setup_message_def)
  from bulk_loop_messages [OF bl, of 0] assms(2) obtain ext2 where
    h2: "history s' = history s1 @ ext2" and
    b2: "bulk_messages ext2
       = map (\<lambda>j. spec_chunk_message data (16 * j)) [0..<(length data + 15) div 16]"
    by auto
  have h: "history s' = history s
      @ (([Written (MessageType_value BulkSetup # integer_to_bytes (int (length data)) 2),
                Attached (ack_observer BulkSetupAck s)]
            @ ext1 @ [Detached (ack_observer BulkSetupAck s)]) @ ext2)"
    using h1 h2 by simp
  have 1: "bulk_messages (new_actions s (snd (snd (upload_bulk_data (PyList data) timeout tr s))))
           = spec_bulk_messages data"
    unfolding up snd_conv new_actions_append [OF h] bulk_messages_append [of _ ext2] b1 b2
    by (simp add: spec_bulk_messages_def)
  have ks: "has_kind BulkSetup (spec_setup_message data)"
      "\<not> has_kind BulkData (spec_setup_message data)"
    by (simp_all add: has_kind_def spec_setup_message_def)
  have kc: "has_kind BulkData (spec_chunk_message data off)"
      "\<not> has_kind BulkSetup (spec_chunk_message data off)" for off
    by (simp_all add: has_kind_def spec_chunk_message_def Let_def)
  have 2: "length (filter (has_kind BulkSetup) (spec_bulk_messages data)) = 1"
    by (simp add: spec_bulk_messages_def ks kc filter_map o_def)
  have 3: "length (filter (has_kind BulkData) (spec_bulk_messages data))
         = nat \<lceil>real (length data) / 16\<rceil>"
    unfolding ceiling_sixteenths
    by (simp add: spec_bulk_messages_def ks kc filter_map o_def)
  have 4: "\<forall>n < (length data + 15) div 16.
           16 * n + min (length data - 16 * n) 16
             = (if Suc n < (length data + 15) div 16 then 16 * Suc n else length data)"
    by auto
  from 1 2 3 4 show ?thesis
    by blast
qed

text \<open>
  The scenario of the spec with the payload as a list: 40 integers, every request
  acknowledged by the next notification. The upload returns, with chunks of 16, 16 and 8
  items at offsets 0, 16 and 32.
\<close>

theorem upload_forty_integers:
  "map int [0..<40] \<noteq> [] \<and> length (map int [0..<40]) \<le> 65535
   \<and> fst (upload_bulk_data forty_integers 1 [Some [6], Some [8], Some [8], Some [8]]
            ready_session)
       = Inr ()
   \<and> bulk_messages (new_actions ready_session
         (snd (snd (upload_bulk_data forty_integers 1 [Some [6], Some [8], Some [8], Some [8]]
                      ready_session))))
       = [[5, 40, 0],
          [7, 16, 0, 0, 0, 1, 2, 3, 4, 5, 6, 7, 8, 9, 10, 11, 12, 13, 14, 15],
          [7, 16, 16, 0, 16, 17, 18, 19, 20, 21, 22, 23, 24, 25, 26, 27, 28, 29, 30, 31],
          [7, 8, 32, 0, 32, 33, 34, 35, 36, 37, 38, 39]]"
proof -
  let ?data = "map int [0..<40]"
  have ne: "?data \<noteq> []" and len: "length ?data \<le> 65535"
    by simp_all
  have bytes: "list_all is_byte ?data"
    by (simp add: list_all_iff is_byte_def)
  have bv: "battery_voltage ready_session \<noteq> None"
    by (simp add: ready_session_def)
  have tr: "Some [6] # replicate ((length ?data + 15) div 16) (Some [8]) @ []
      = [Some [6], Some [8], Some [8], Some [8]]"
    by (simp add: numeral_3_eq_3)
  have ok: "fst (upload_bulk_data (PyList ?data) 1 [Some [6], Some [8], Some [8], Some [8]]
      ready_session) = Inr ()"
    using upload_bulk_data_acked [OF ne bytes _ bv, of 1 "[]"] unfolding tr by auto
  have spec: "spec_bulk_messages ?data
       = [[5, 40, 0],
          [7, 16, 0, 0, 0, 1, 2, 3, 4, 5, 6, 7, 8, 9, 10, 11, 12, 13, 14, 15],
          [7, 16, 16, 0, 16, 17, 18, 19, 20, 21, 22, 23, 24, 25, 26, 27, 28, 29, 30, 31],
          [7, 8, 32, 0, 32, 33, 34, 35, 36, 37, 38, 39]]"
    by code_simp
  from upload_of_list_sends_setup_then_chunks [OF ne len ok] ne len ok show ?thesis
    unfolding spec forty_integers_def by blast
qed

text \<open>
  C5, as stated: when no \<^verbatim>\<open>BulkSetupAck\<close> arrives, the upload raises the acknowledgement
  timeout. Here the only notification is a \<^verbatim>\<open>BatteryLevel\<close> message with two payload
  bytes in place of four: its dispatch raises \<^verbatim>\<open>struct.error\<close>, and that exception
  leaves the upload, not the timeout.
\<close>

theorem setup_wait_raises_other_error:
  "list_all (\<lambda>a. \<not> brings BulkSetupAck a) [Some [28, 0, 0]]
   \<and> fst (upload_bulk_data forty_bytes 1 [Some [28, 0, 0]] ready_session) = Inl StructError"
  by code_simp

text \<open>
  C5, amended. When none of the notifications handed over during the upload is a
  \<^verbatim>\<open>BulkSetupAck\<close> (one that comes after the wait has ended does not count), the upload
  raises and no \<^verbatim>\<open>BulkData\<close> message is written. The exception is the acknowledgement
  timeout for \<^verbatim>\<open>BulkSetupAck\<close>, unless the dispatch of a notification raised one
  first, which takes a notification that is malformed for its kind or a session whose
  battery voltage was never assigned.
\<close>

theorem setup_failure_aborts_upload:
  assumes "items data \<noteq> []" "0 \<le> timeout"
    and "list_all (\<lambda>a. \<not> brings BulkSetupAck a)
           (handed_over tr (fst (snd (upload_bulk_data data timeout tr s))))"
  shows "(fst (upload_bulk_data data timeout tr s) = Inl (AckTimeout BulkSetupAck timeout)
          \<or> (\<exists>e. fst (upload_bulk_data data timeout tr s) = Inl e
                \<and> (battery_voltage s = None
                    \<or> \<not> list_all arrival_ok
                          (handed_over tr (fst (snd (upload_bulk_data data timeout tr s)))))))
     \<and> filter (has_kind BulkData)
          (written (new_actions s (snd (snd (upload_bulk_data data timeout tr s))))) = []"
proof -
  let ?request = "integer_to_bytes (int (length (items data))) 2"
  obtain r1 tr1 s1 where sa: "send_and_ack BulkSetup ?request BulkSetupAck timeout tr s = (r1, tr1, s1)"
    by (cases "send_and_ack BulkSetup ?request BulkSetupAck timeout tr s")
  have no_ack: "r1 \<noteq> Inr ack" for ack
  proof
    assume ack: "r1 = Inr ack"
    with send_and_ack_result [OF assms(2) integer_to_bytes_bytes sa] obtain pre where
      tr: "tr = pre @ Some ack # tr1" and kind: "has_kind BulkSetupAck ack"
      by auto
    obtain r tr' s' where bl: "bulk_loop data timeout (length (items data)) 0 tr1 s1 = (r, tr', s')"
      by (cases "bulk_loop data timeout (length (items data)) 0 tr1 s1")
    from bulk_loop_suffix [OF bl] obtain pre2 where tr1: "tr1 = pre2 @ tr'"
      by blast
    have up: "upload_bulk_data data timeout tr s = (r, tr', s')"
      unfolding upload_bulk_data_unfold [OF assms(1,2)] sa ack using bl by simp
    have "tr = (pre @ Some ack # pre2) @ tr'"
      using tr tr1 by simp
    then have "handed_over tr tr' = pre @ Some ack # pre2"
      using handed_over_prefix by metis
    with assms(3) kind show False
      unfolding up by (simp add: brings_def)
  qed
  then obtain e where e: "r1 = Inl e"
    by (cases r1) auto
  have up: "upload_bulk_data data timeout tr s = (Inl e, tr1, s1)"
    unfolding upload_bulk_data_unfold [OF assms(1,2)] sa e by simp
  have w: "filter (has_kind BulkData) (written (new_actions s s1)) = []"
    using setup_history_no_chunk [OF assms(2) sa] .
  have "e = AckTimeout BulkSetupAck timeout \<or> battery_voltage s = None
      \<or> \<not> list_all arrival_ok (handed_over tr tr1)"
  proof (cases "battery_voltage s = None")
    case True
    then show ?thesis by simp
  next
    case False
    from send_and_ack_error_cause [OF assms(2) integer_to_bytes_bytes False sa [unfolded e]]
    show ?thesis
    proof
      assume "e = AckTimeout BulkSetupAck timeout"
      then show ?thesis by simp
    next
      assume "\<exists>pre m. tr = pre @ Some m # tr1 \<and> \<not> well_formed m"
      then obtain pre m where "tr = (pre @ [Some m]) @ tr1" and bad: "\<not> well_formed m"
        by auto
      then have "handed_over tr tr1 = pre @ [Some m]"
        using handed_over_prefix by metis
      with bad show ?thesis
        by (simp add: arrival_ok_def)
    qed
  qed
  with w show ?thesis
    unfolding up by auto
qed

text \<open>Nothing arrives during the wait, and the acknowledgement comes too late.\<close>

theorem setup_failure_aborts_upload_example:
  "items forty_bytes \<noteq> [] \<and> (0::real) \<le> 1
   \<and> handed_over [None, Some [6]]
        (fst (snd (upload_bulk_data forty_bytes 1 [None, Some [6]] ready_session))) = [None]
   \<and> list_all (\<lambda>a. \<not> brings BulkSetupAck a) [None]
   \<and> battery_voltage ready_session \<noteq> None \<and> list_all arrival_ok [None]
   \<and> fst (upload_bulk_data forty_bytes 1 [None, Some [6]] ready_session)
       = Inl (AckTimeout BulkSetupAck 1)
   \<and> filter (has_kind BulkData)
        (written (new_actions ready_session
           (snd (snd (upload_bulk_data forty_bytes 1 [None, Some [6]] ready_session))))) = []"
proof -
  have left: "fst (snd (upload_bulk_data forty_bytes 1 [None, Some [6]] ready_session))
      = [Some [6]]"
    by code_simp
  have h: "handed_over [None, Some [6]]
        (fst (snd (upload_bulk_data forty_bytes 1 [None, Some [6]] ready_session))) = [None]"
    unfolding left by (simp add: handed_over_def)
  have a: "items forty_bytes \<noteq> []" "(0::real) \<le> 1"
    "list_all (\<lambda>a. \<not> brings BulkSetupAck a) [None]"
    by (simp_all add: forty_bytes_def brings_def)
  have b: "battery_voltage ready_session \<noteq> None" "list_all arrival_ok [None]"
    by (simp_all add: arrival_ok_def ready_session_def)
  from setup_failure_aborts_upload [of forty_bytes 1 "[None, Some [6]]" ready_session]
    a b h show ?thesis
    by auto
qed

end
